theory Spec2Isabelle
  imports Complex_Main
begin

section \<open>Utilities (tools/ai\_generated\_console\_dash\_ncurses.c, lines 41--67)\<close>


definition imax :: "int \<Rightarrow> int \<Rightarrow> int" where
  "imax a b = (if a > b then a else b)"

text \<open>
  The conversion of a \<open>long long\<close> or \<open>long\<close> to \<open>int\<close>: the value is reduced
  modulo \<open>2^32\<close> into the range of \<open>int\<close> (what gcc and clang define for it).
\<close>

definition int_of_ll :: "int \<Rightarrow> int" where
  "int_of_ll x = (x + 2147483648) mod 4294967296 - 2147483648"

text \<open>
  Strings are byte lists without the terminating NUL (a string of the program never
  holds a NUL byte). \<open>isspace\<close> and \<open>tolower\<close> are those of the C locale.
\<close>

definition isspace :: "char \<Rightarrow> bool" where
  "isspace c = (let n = (of_char c :: nat) in n = 32 \<or> (9 \<le> n \<and> n \<le> 13))"

definition tolower :: "char \<Rightarrow> char" where
  "tolower c = (let n = (of_char c :: nat) in if 65 \<le> n \<and> n \<le> 90 then char_of (n + 32) else c)"

definition trim_inplace :: "string \<Rightarrow> string" where
  "trim_inplace s = (let p = dropWhile isspace s in rev (dropWhile isspace (rev p)))"

fun equals_ci :: "string \<Rightarrow> string \<Rightarrow> bool" where
  "equals_ci (a # as) (b # bs) = (if tolower a \<noteq> tolower b then False else equals_ci as bs)"
| "equals_ci as bs = (as = [] \<and> bs = [])"

text \<open>\<open>snprintf(buf, n, "%s", s)\<close> keeps the first \<open>n - 1\<close> bytes of \<open>s\<close>.\<close>

definition snprintf_s :: "nat \<Rightarrow> string \<Rightarrow> string" where
  "snprintf_s n s = take (n - 1) s"

text \<open>
  \<open>strcmp\<close> of libc compares byte by byte, bytes as \<open>unsigned char\<close>. Only the
  sign of its result is specified, and only the sign is used by the program: the model
  returns \<open>-1\<close>, \<open>0\<close> or \<open>1\<close>.
\<close>

fun strcmp :: "string \<Rightarrow> string \<Rightarrow> int" where
  "strcmp [] [] = 0"
| "strcmp [] (b # bs) = - 1"
| "strcmp (a # as) [] = 1"
| "strcmp (a # as) (b # bs) =
     (if a = b then strcmp as bs
      else if (of_char a :: nat) < of_char b then - 1 else 1)"

text \<open>
  A C \<open>double\<close> is a real number, an infinity or NaN. Where a \<open>double\<close> of the
  program is always a number (a value read from JSON), it is a \<open>real\<close>. Comparisons
  of doubles are exact. The constants of \<open>dewpoint_c\<close> and of \<open>is_finite\<close> are the
  doubles nearest to the decimal literals of the source.
\<close>

datatype double = Num real | PosInf | NegInf | NaN

definition dbl_1e300 :: real where
  "dbl_1e300 = 1681218273811815 * 2 ^ 946"

definition dbl_17_62 :: real where
  "dbl_17_62 = 4959589089641759 / 2 ^ 48"

definition dbl_243_12 :: real where
  "dbl_243_12 = 2138506135559209 / 2 ^ 43"

text \<open>\<open>is_finite\<close> (line 44): not NaN, and strictly between \<open>-1e300\<close> and \<open>1e300\<close>.\<close>

fun is_finite :: "double \<Rightarrow> bool" where
  "is_finite (Num x) = (x > - dbl_1e300 \<and> x < dbl_1e300)"
| "is_finite PosInf = False"
| "is_finite NegInf = False"
| "is_finite NaN = False"

text \<open>
  The arithmetic of the machine on doubles, as far as \<open>dewpoint_c\<close> uses it: the four
  operations and \<open>log\<close> of libm, each with its own rounding, overflow, underflow and
  special values. It is a parameter of the model, which fixes none of its results.
  (The sums of \<open>compute_averages\<close> are modelled in exact real arithmetic.)
\<close>

record fp_ops =
  fp_add :: "double \<Rightarrow> double \<Rightarrow> double"
  fp_sub :: "double \<Rightarrow> double \<Rightarrow> double"
  fp_mul :: "double \<Rightarrow> double \<Rightarrow> double"
  fp_div :: "double \<Rightarrow> double \<Rightarrow> double"
  fp_log :: "double \<Rightarrow> double"

section \<open>Dew point (lines 70--76)\<close>

text \<open>
  An argument that is not a number fails \<open>is_finite\<close>. Past the guard every step is
  an operation of the machine.
\<close>

fun dewpoint_c :: "fp_ops \<Rightarrow> double \<Rightarrow> double \<Rightarrow> double" where
  "dewpoint_c fp (Num t_c) (Num rh_pct) =
     (if \<not> is_finite (Num t_c) \<or> \<not> is_finite (Num rh_pct) \<or> rh_pct \<le> 0 \<or> rh_pct > 100 then NaN
      else let a = Num dbl_17_62;
               b = Num dbl_243_12;
               gamma = fp_add fp (fp_log fp (fp_div fp (Num rh_pct) (Num 100)))
                                 (fp_div fp (fp_mul fp a (Num t_c)) (fp_add fp b (Num t_c)))
           in fp_div fp (fp_mul fp b gamma) (fp_sub fp a gamma))"
| "dewpoint_c fp t rh = NaN"

text \<open>
  The dew point in the words of the specification, for comparison: undefined when
  \<open>r \<le> 0\<close>, \<open>r > 100\<close> or an argument is not a finite number, the Magnus formula
  otherwise.
\<close>

definition dewpoint_spec :: "double \<Rightarrow> double \<Rightarrow> double" where
  "dewpoint_spec t r =
     (case (t, r) of
        (Num tc, Num rr) \<Rightarrow>
          if rr \<le> 0 \<or> rr > 100 then NaN
          else let g = ln (rr / 100) + (17.62 * tc) / (243.12 + tc)
               in Num (243.12 * g / (17.62 - g))
      | _ \<Rightarrow> NaN)"

section \<open>The device table (lines 79--91)\<close>

definition MAX_DEVICES :: nat where "MAX_DEVICES = 1024"
definition MAX_ID_LEN :: nat where "MAX_ID_LEN = 96"
definition MAX_LOC_LEN :: nat where "MAX_LOC_LEN = 96"

text \<open>The field \<open>id\<close> of the struct is \<open>id_str\<close> here.\<close>

record Device =
  id_str :: string
  location :: string
  ts :: int
  temp :: real
  has_temp :: bool
  rh :: real
  has_rh :: bool

text \<open>
  The global array \<open>devices\<close> with its \<open>device_count\<close> is the list of its first
  \<open>device_count\<close> elements, passed in and returned by every function that uses it.
\<close>

section \<open>The line queue (lines 95--142)\<close>

text \<open>
  A slot of \<open>buf\<close> holds a pointer to an owned copy of a line, or \<open>NULL\<close>:
  \<open>string option\<close>. The indices \<open>head\<close> and \<open>tail\<close> and the slot count
  \<open>cap\<close> are C \<open>int\<close>s that are never negative (\<open>calloc\<close> zeroes them and
  every update is taken \<open>% cap\<close>), so they are natural numbers here. The mutex and the
  condition variable only serialise the two operations; each operation is one atomic
  step of the model. \<open>q_create 0\<close> is outside the model: \<open>% q->cap\<close> divides by zero
  in C.
\<close>

record LineQueue =
  buf :: "string option list"
  cap :: nat
  head :: nat
  tail :: nat

definition q_create :: "nat \<Rightarrow> LineQueue" where
  "q_create c = \<lparr>buf = replicate c None, cap = c, head = 0, tail = 0\<rparr>"

definition q_push :: "LineQueue \<Rightarrow> string \<Rightarrow> LineQueue" where
  "q_push q line =
     (let next = (tail q + 1) mod cap q;
          q1 = (if next = head q
                then q\<lparr>buf := (buf q)[head q := None], head := (head q + 1) mod cap q\<rparr>
                else q)
      in q1\<lparr>buf := (buf q1)[tail q1 := Some line], tail := next\<rparr>)"

definition q_pop_nowait :: "LineQueue \<Rightarrow> string option \<times> LineQueue" where
  "q_pop_nowait q =
     (if head q = tail q then (None, q)
      else (buf q ! head q,
            q\<lparr>buf := (buf q)[head q := None], head := (head q + 1) mod cap q\<rparr>))"

text \<open>The reader thread pushes every line it reads (line 160).\<close>

definition push_all :: "LineQueue \<Rightarrow> string list \<Rightarrow> LineQueue" where
  "push_all q ls = foldl q_push q ls"

text \<open>
  The drain loop of \<open>main\<close> (lines 477--482) pops until \<open>q_pop_nowait\<close> returns
  \<open>NULL\<close>. Here the popped lines are collected in order instead of being processed.
  On an ill-formed queue the loop need not end, so not returning is the value \<open>None\<close>.
\<close>

partial_function (option) drain :: "LineQueue \<Rightarrow> string list \<Rightarrow> (string list \<times> LineQueue) option" where
  "drain q acc =
     (case q_pop_nowait q of
        (None, q') \<Rightarrow> Some (acc, q')
      | (Some line, q') \<Rightarrow> drain q' (acc @ [line]))"

declare drain.simps [code]

text \<open>The lines a drain delivers, when it returns.\<close>

definition drained :: "LineQueue \<Rightarrow> string list option" where
  "drained q = map_option fst (drain q [])"

section \<open>Upsert (lines 168--186)\<close>

fun find_device_from :: "nat \<Rightarrow> string \<Rightarrow> string \<Rightarrow> Device list \<Rightarrow> int" where
  "find_device_from i ident loc [] = - 1"
| "find_device_from i ident loc (d # ds) =
     (if strcmp (id_str d) ident = 0 \<and> strcmp (location d) loc = 0 then int i
      else find_device_from (i + 1) ident loc ds)"

definition find_device :: "string \<Rightarrow> string \<Rightarrow> Device list \<Rightarrow> int" where
  "find_device ident loc devices = find_device_from 0 ident loc devices"

text \<open>\<open>add_device\<close> returns the new index, or \<open>-1\<close> when the array is full, and the array.\<close>

definition add_device :: "string \<Rightarrow> string \<Rightarrow> Device list \<Rightarrow> int \<times> Device list" where
  "add_device ident loc devices =
     (if length devices \<ge> MAX_DEVICES then (- 1, devices)
      else (int (length devices),
            devices @ [\<lparr>id_str = snprintf_s MAX_ID_LEN ident,
                        location = snprintf_s MAX_LOC_LEN loc,
                        ts = 0, temp = 0, has_temp = False, rh = 0, has_rh = False\<rparr>]))"

definition excluded_location :: "string \<Rightarrow> bool" where
  "excluded_location loc = equals_ci loc ''attic''"

section \<open>Decoding a line (lines 189--252)\<close>

text \<open>
  The values of the jansson library. An object is the list of its members; jansson keeps
  one value per key, so the order of the list does not matter. A jansson integer is a
  \<open>long long\<close>, a jansson real a finite \<open>double\<close>.
\<close>

datatype json =
    JSON_OBJECT "(string \<times> json) list"
  | JSON_ARRAY "json list"
  | JSON_STRING string
  | JSON_INTEGER int
  | JSON_REAL real
  | JSON_TRUE
  | JSON_FALSE
  | JSON_NULL

text \<open>The accessors take a pointer that may be \<open>NULL\<close>: a \<open>json option\<close>.\<close>

fun json_is_object :: "json option \<Rightarrow> bool" where
  "json_is_object (Some (JSON_OBJECT kvs)) = True"
| "json_is_object j = False"

fun json_object_get :: "json option \<Rightarrow> string \<Rightarrow> json option" where
  "json_object_get (Some (JSON_OBJECT kvs)) k = map_of kvs k"
| "json_object_get j k = None"

fun json_is_string :: "json option \<Rightarrow> bool" where
  "json_is_string (Some (JSON_STRING s)) = True"
| "json_is_string j = False"

fun json_string_value :: "json option \<Rightarrow> string option" where
  "json_string_value (Some (JSON_STRING s)) = Some s"
| "json_string_value j = None"

fun json_is_integer :: "json option \<Rightarrow> bool" where
  "json_is_integer (Some (JSON_INTEGER i)) = True"
| "json_is_integer j = False"

fun json_is_real :: "json option \<Rightarrow> bool" where
  "json_is_real (Some (JSON_REAL x)) = True"
| "json_is_real j = False"

definition json_is_number :: "json option \<Rightarrow> bool" where
  "json_is_number j = (json_is_integer j \<or> json_is_real j)"

fun json_integer_value :: "json option \<Rightarrow> int" where
  "json_integer_value (Some (JSON_INTEGER i)) = i"
| "json_integer_value j = 0"

fun json_number_value :: "json option \<Rightarrow> real" where
  "json_number_value (Some (JSON_INTEGER i)) = real_of_int i"
| "json_number_value (Some (JSON_REAL x)) = x"
| "json_number_value j = 0"

text \<open>
  The cast \<open>(long long)x\<close> of a \<open>double\<close> truncates toward zero. (Outside the range of
  \<open>long long\<close> the cast is undefined in C; the model truncates there too.)
\<close>

definition ll_of_double :: "real \<Rightarrow> int" where
  "ll_of_double x = (if 0 \<le> x then \<lfloor>x\<rfloor> else \<lceil>x\<rceil>)"

text \<open>
  What \<open>process_json_line\<close> has decoded when it reaches line 253. Each pair of
  locals \<open>(temp, has_temp)\<close> and \<open>(rh, has_rh)\<close> is one optional value: \<open>None\<close>
  is the cleared flag (the local is then NAN and never read).
\<close>

record Reading =
  r_id :: string
  r_location :: string
  r_ts :: int
  r_temp :: "real option"
  r_rh :: "real option"

definition string_field :: "json option \<Rightarrow> string \<Rightarrow> string option" where
  "string_field obj k =
     (let j = json_object_get obj k in if json_is_string j then json_string_value j else None)"

definition ts_field :: "json option \<Rightarrow> string \<Rightarrow> int" where
  "ts_field obj k =
     (let j = json_object_get obj k in
      if json_is_integer j then json_integer_value j
      else if json_is_real j then ll_of_double (json_number_value j)
      else 0)"

definition number_field :: "json option \<Rightarrow> string \<Rightarrow> real option" where
  "number_field obj k =
     (let j = json_object_get obj k in if json_is_number j then Some (json_number_value j) else None)"

text \<open>
  \<open>json_loads\<close> is jansson's parser, a parameter of the model: it returns \<open>NULL\<close>
  for a line that is not well-formed JSON. \<open>now\<close> is what \<open>now_i()\<close> returns.
\<close>

definition decode_reading :: "(string \<Rightarrow> json option) \<Rightarrow> int \<Rightarrow> string \<Rightarrow> Reading option" where
  "decode_reading json_loads now line =
     (let obj = json_loads line in
      if obj = None \<or> \<not> json_is_object obj then None
      else
        let ident = string_field obj ''id'';
            ident = (if ident = None then string_field obj ''device_id'' else ident)
        in case ident of
             None \<Rightarrow> None
           | Some ident \<Rightarrow>
               let loc = string_field obj ''location'';
                   loc = (if loc = None then string_field obj ''room'' else loc);
                   loc = (case loc of None \<Rightarrow> ''unknown'' | Some l \<Rightarrow> l);
                   t = ts_field obj ''ts'';
                   t = (if t = 0 then ts_field obj ''time'' else t);
                   t = (if t = 0 then now else t);
                   tmp = number_field obj ''temp'';
                   tmp = (if tmp = None then number_field obj ''temperature'' else tmp);
                   tmp = (if tmp = None then number_field obj ''temperature_c'' else tmp);
                   hum = number_field obj ''humidity'';
                   hum = (if hum = None then number_field obj ''humidity_pct'' else hum);
                   id_buf = trim_inplace (snprintf_s MAX_ID_LEN ident);
                   loc_buf = trim_inplace (snprintf_s MAX_LOC_LEN loc)
               in Some \<lparr>r_id = id_buf, r_location = loc_buf, r_ts = t, r_temp = tmp, r_rh = hum\<rparr>)"

text \<open>Lines 254--262: the update of the device table with a decoded reading.\<close>

definition store_reading :: "Reading \<Rightarrow> Device \<Rightarrow> Device" where
  "store_reading r d =
     (let d = d\<lparr>ts := r_ts r\<rparr>;
          d = (case r_temp r of None \<Rightarrow> d | Some v \<Rightarrow> d\<lparr>temp := v, has_temp := True\<rparr>);
          d = (case r_rh r of None \<Rightarrow> d | Some v \<Rightarrow> d\<lparr>rh := v, has_rh := True\<rparr>)
      in d)"

definition upsert :: "Reading \<Rightarrow> Device list \<Rightarrow> Device list" where
  "upsert r devices =
     (if \<not> excluded_location (r_location r) then
        let idx = find_device (r_id r) (r_location r) devices;
            (idx, devices) = (if idx < 0 then add_device (r_id r) (r_location r) devices
                              else (idx, devices))
        in if idx \<ge> 0 then devices[nat idx := store_reading r (devices ! nat idx)]
           else devices
      else devices)"

definition process_json_line :: "(string \<Rightarrow> json option) \<Rightarrow> int \<Rightarrow> string \<Rightarrow> Device list \<Rightarrow> Device list" where
  "process_json_line json_loads now line devices =
     (case decode_reading json_loads now line of
        None \<Rightarrow> devices
      | Some r \<Rightarrow> upsert r devices)"

text \<open>
  The drain loop of \<open>main\<close> applied to lines, each with the clock at the moment it is
  processed.
\<close>

definition process_lines :: "(string \<Rightarrow> json option) \<Rightarrow> (int \<times> string) list \<Rightarrow> Device list \<Rightarrow> Device list" where
  "process_lines json_loads nls devices =
     foldl (\<lambda>devs (now, line). process_json_line json_loads now line devs) devices nls"

section \<open>Averages (lines 268--296)\<close>

text \<open>The running sums and counters of the loop.\<close>

record Sums =
  sum_in_t :: real
  sum_in_h :: real
  nin_t :: int
  nin_h :: int
  cin :: int
  sum_g_t :: real
  sum_g_h :: real
  ng_t :: int
  ng_h :: int
  cg :: int

definition no_sums :: Sums where
  "no_sums = \<lparr>sum_in_t = 0, sum_in_h = 0, nin_t = 0, nin_h = 0, cin = 0,
               sum_g_t = 0, sum_g_h = 0, ng_t = 0, ng_h = 0, cg = 0\<rparr>"

text \<open>The body of the loop for one device.\<close>

definition avg_step :: "int \<Rightarrow> Sums \<Rightarrow> Device \<Rightarrow> Sums" where
  "avg_step cutoff s d =
     (if ts d < cutoff then s
      else
        let is_garden = equals_ci (location d) ''garden'' in
        if is_garden then
          let s = (if has_temp d then s\<lparr>sum_g_t := sum_g_t s + temp d, ng_t := ng_t s + 1\<rparr> else s);
              s = (if has_rh d then s\<lparr>sum_g_h := sum_g_h s + rh d, ng_h := ng_h s + 1\<rparr> else s);
              s = (if has_temp d \<or> has_rh d then s\<lparr>cg := cg s + 1\<rparr> else s)
          in s
        else
          let s = (if has_temp d then s\<lparr>sum_in_t := sum_in_t s + temp d, nin_t := nin_t s + 1\<rparr> else s);
              s = (if has_rh d then s\<lparr>sum_in_h := sum_in_h s + rh d, nin_h := nin_h s + 1\<rparr> else s);
              s = (if has_temp d \<or> has_rh d then s\<lparr>cin := cin s + 1\<rparr> else s)
          in s)"

record Averages =
  in_t :: double
  in_h :: double
  in_n :: int
  g_t :: double
  g_h :: double
  g_n :: int

definition compute_averages :: "int \<Rightarrow> int \<Rightarrow> Device list \<Rightarrow> Averages" where
  "compute_averages now g_stale_secs devices =
     (let cutoff = now - g_stale_secs;
          s = foldl (avg_step cutoff) no_sums devices
      in \<lparr>in_t = (if nin_t s \<noteq> 0 then Num (sum_in_t s / real_of_int (nin_t s)) else NaN),
          in_h = (if nin_h s \<noteq> 0 then Num (sum_in_h s / real_of_int (nin_h s)) else NaN),
          in_n = cin s,
          g_t = (if ng_t s \<noteq> 0 then Num (sum_g_t s / real_of_int (ng_t s)) else NaN),
          g_h = (if ng_h s \<noteq> 0 then Num (sum_g_h s / real_of_int (ng_h s)) else NaN),
          g_n = cg s\<rparr>)"

section \<open>The table (lines 334--448)\<close>

definition cmp_rowref_by_id :: "Device \<Rightarrow> Device \<Rightarrow> int" where
  "cmp_rowref_by_id ra rb =
     (let c = strcmp (id_str ra) (id_str rb) in
      if c \<noteq> 0 then c else strcmp (location ra) (location rb))"

text \<open>
  \<open>qsort\<close> of libc, as an insertion sort with the comparison function. The keys of
  the device table are distinct, so every sorting algorithm gives the same order.
\<close>

fun qsort_insert :: "('a \<Rightarrow> 'a \<Rightarrow> int) \<Rightarrow> 'a \<Rightarrow> 'a list \<Rightarrow> 'a list" where
  "qsort_insert cmp x [] = [x]"
| "qsort_insert cmp x (y # ys) = (if cmp x y \<le> 0 then x # y # ys else y # qsort_insert cmp x ys)"

definition qsort :: "('a \<Rightarrow> 'a \<Rightarrow> int) \<Rightarrow> 'a list \<Rightarrow> 'a list" where
  "qsort cmp xs = foldr (qsort_insert cmp) xs []"

text \<open>
  An attribute word of curses is the set of its bits; \<open>A_NORMAL\<close> has none.
\<close>

datatype attr_bit = A_DIM | A_BOLD | COLOR_PAIR nat

definition A_NORMAL :: "attr_bit set" where "A_NORMAL = {}"
definition CP_WARN :: nat where "CP_WARN = 1"

text \<open>
  \<open>imax\<close> takes \<open>int\<close>s, so the \<open>long long\<close> difference \<open>now_i() - d->ts\<close> of line
  400 is converted to \<open>int\<close> on the way in (\<open>int_of_ll\<close>).
\<close>

text \<open>
  A drawn row: the device, the age, and for each numeric cell the number printed
  (\<open>None\<close> is the placeholder dash), with the attributes of the row and of the
  humidity cell. The formatting of the cells into text is not modelled.
\<close>

record TableRow =
  row_dev :: Device
  age :: int
  stale :: bool
  is_garden :: bool
  tcell :: "real option"
  rcell :: "real option"
  dpcell :: "double option"
  row_attr :: "attr_bit set"
  rh_attr :: "attr_bit set"

definition draw_row :: "fp_ops \<Rightarrow> int \<Rightarrow> int \<Rightarrow> bool \<Rightarrow> Device \<Rightarrow> TableRow" where
  "draw_row fp now cutoff g_has_colors d =
     (let age = imax 0 (int_of_ll (now - ts d));
          stale = (ts d < cutoff);
          is_garden = equals_ci (location d) ''garden'';
          dp = (if has_temp d \<and> has_rh d then dewpoint_c fp (Num (temp d)) (Num (rh d)) else NaN);
          row_attr = (if stale then {A_DIM} else A_NORMAL);
          rh_alert = (\<not> is_garden \<and> has_rh d \<and> (rh d < 30 \<or> rh d > 60));
          rh_attr = (if g_has_colors \<and> rh_alert
                     then (row_attr - {A_DIM}) \<union> {COLOR_PAIR CP_WARN} \<union> {A_BOLD}
                     else row_attr)
      in \<lparr>row_dev = d, age = age, stale = stale, is_garden = is_garden,
          tcell = (if has_temp d then Some (temp d) else None),
          rcell = (if has_rh d then Some (rh d) else None),
          dpcell = (if is_finite dp then Some dp else None),
          row_attr = row_attr, rh_attr = rh_attr\<rparr>)"

text \<open>Lines 382--388: the rows of the table, all devices but the excluded ones, sorted.\<close>

definition table_rows :: "Device list \<Rightarrow> Device list" where
  "table_rows devices =
     qsort cmp_rowref_by_id (filter (\<lambda>d. \<not> excluded_location (location d)) devices)"

text \<open>
  \<open>draw_table\<close> for a box of height \<open>h\<close> at line \<open>y\<close>: the rows it draws, top to
  bottom (\<open>fp\<close> is the arithmetic of the machine, for the dew point cell). The column widths and the footer are not modelled. \<open>table_start\<close> below is
  its computation of the first row shown.
\<close>

definition table_start :: "int \<Rightarrow> int \<Rightarrow> int \<Rightarrow> int" where
  "table_start scroll rc max_rows =
     (let start = scroll;
          start = (if start < 0 then 0 else start)
      in if start > rc - max_rows then imax 0 (rc - max_rows) else start)"





section \<open>The freshness window setting (lines 452--456)\<close>

definition INT_MAX :: int where
  "INT_MAX = 2147483647"

definition LONG_MAX :: int where
  "LONG_MAX = 9223372036854775807"

definition LONG_MIN :: int where
  "LONG_MIN = - 9223372036854775808"

definition isdigit :: "char \<Rightarrow> bool" where
  "isdigit c = (let n = (of_char c :: nat) in 48 \<le> n \<and> n \<le> 57)"

fun atoi_digits :: "int \<Rightarrow> string \<Rightarrow> int" where
  "atoi_digits acc [] = acc"
| "atoi_digits acc (c # cs) =
     (if isdigit c then atoi_digits (10 * acc + (int (of_char c) - 48)) cs else acc)"

text \<open>
  \<open>atoi\<close> of glibc is \<open>(int) strtol (nptr, NULL, 10)\<close>. \<open>strtol\<close> skips white space,
  takes an optional sign and then the decimal digits up to the first other byte; a
  value outside the range of \<open>long\<close> (64 bits on the Linux targets of the program)
  comes back as \<open>LONG_MAX\<close> or \<open>LONG_MIN\<close>. The cast to \<open>int\<close> keeps the low 32
  bits.
\<close>

definition clamp_long :: "int \<Rightarrow> int" where
  "clamp_long v = (if v > LONG_MAX then LONG_MAX else if v < LONG_MIN then LONG_MIN else v)"

definition strtol10 :: "string \<Rightarrow> int" where
  "strtol10 s =
     (let p = dropWhile isspace s;
          v = (case p of
                 [] \<Rightarrow> 0
               | c # cs \<Rightarrow>
                   if c = CHR ''-'' then - atoi_digits 0 cs
                   else if c = CHR ''+'' then atoi_digits 0 cs
                   else atoi_digits 0 p)
      in clamp_long v)"

definition atoi :: "string \<Rightarrow> int" where
  "atoi s = int_of_ll (strtol10 s)"

text \<open>
  The value of \<open>g_stale_secs\<close> after line 456, from what \<open>getenv("SB_STALE_SECS")\<close>
  returned (\<open>None\<close> is \<open>NULL\<close>, the variable is not set).
\<close>

definition init_stale_secs :: "string option \<Rightarrow> int" where
  "init_stale_secs e =
     (let g_stale_secs = 900 in
      case e of
        None \<Rightarrow> g_stale_secs
      | Some s \<Rightarrow>
          if s = [] then g_stale_secs
          else let v = atoi s in if v > 0 \<and> v < 86400 then v else g_stale_secs)"

section \<open>Scrolling (lines 507--512)\<close>

text \<open>
  The keys \<open>getch\<close> can deliver, as far as the main loop tells them apart. \<open>NoKey\<close>
  is \<open>ERR\<close> (no key pending) or any key that is neither a character nor one of the
  four named keys.
\<close>

datatype key = KEY_DOWN | KEY_UP | KEY_NPAGE | KEY_PPAGE | KeyChar char | NoKey

text \<open>
  One pass over the key dispatch of the main loop, on the pair \<open>(scroll, running)\<close>.
  \<open>scroll++\<close> and \<open>scroll += 10\<close> are undefined in C when the result exceeds
  \<open>INT_MAX\<close>: the model returns \<open>None\<close> there.
\<close>

definition handle_key :: "key \<Rightarrow> int \<times> bool \<Rightarrow> (int \<times> bool) option" where
  "handle_key ch st =
     (case st of (scroll, running) \<Rightarrow>
        if ch = KeyChar CHR ''q'' \<or> ch = KeyChar CHR ''Q'' then Some (scroll, False)
        else if ch = KEY_DOWN \<or> ch = KeyChar CHR ''j''
          then (if scroll + 1 \<le> INT_MAX then Some (scroll + 1, running) else None)
        else if ch = KEY_UP \<or> ch = KeyChar CHR ''k'' then Some (imax 0 (scroll - 1), running)
        else if ch = KEY_NPAGE
          then (if scroll + 10 \<le> INT_MAX then Some (scroll + 10, running) else None)
        else if ch = KEY_PPAGE then Some (imax 0 (scroll - 10), running)
        else Some (scroll, running))"

text \<open>
  The main loop over a sequence of keys, one per frame, from the state \<open>st\<close>; it
  stops reading keys once \<open>running\<close> is cleared.
\<close>

fun run_keys :: "key list \<Rightarrow> int \<times> bool \<Rightarrow> (int \<times> bool) option" where
  "run_keys [] st = Some st"
| "run_keys (ch # chs) st =
     (if snd st
      then (case handle_key ch st of None \<Rightarrow> None | Some st' \<Rightarrow> run_keys chs st')
      else Some st)"

text \<open>The range the specification gives for the scroll offset.\<close>

definition in_scroll_range :: "int \<Rightarrow> int \<Rightarrow> int \<Rightarrow> bool" where
  "in_scroll_range s total_rows visible_rows =
     (0 \<le> s \<and> s \<le> max 0 (total_rows - visible_rows))"

section \<open>Notions used in the statements\<close>

text \<open>
  \<open>holds q ls\<close>: the queue is well formed and its unread lines, oldest first, are
  \<open>ls\<close>. One slot always stays free, so that \<open>head = tail\<close> means empty.
\<close>

definition holds :: "LineQueue \<Rightarrow> string list \<Rightarrow> bool" where
  "holds q ls =
     (0 < cap q \<and> length (buf q) = cap q \<and> head q < cap q \<and> length ls < cap q \<and>
      tail q = (head q + length ls) mod cap q \<and>
      (\<forall>i<length ls. buf q ! ((head q + i) mod cap q) = Some (ls ! i)))"

text \<open>The last \<open>n\<close> elements of a list.\<close>

definition keep_last :: "nat \<Rightarrow> 'a list \<Rightarrow> 'a list" where
  "keep_last n xs = drop (length xs - n) xs"

text \<open>
  The words of the specification for the aggregates: a device is fresh when its
  timestamp is at least \<open>now - w\<close>, it is in the garden class when its location
  equals \<open>"garden"\<close> without regard to case, and the mean of no values is undefined.
\<close>

definition fresh :: "int \<Rightarrow> int \<Rightarrow> Device \<Rightarrow> bool" where
  "fresh now w d = (ts d \<ge> now - w)"

definition in_garden :: "Device \<Rightarrow> bool" where
  "in_garden d = equals_ci (location d) ''garden''"

definition mean :: "real list \<Rightarrow> double" where
  "mean xs = (if xs = [] then NaN else Num (sum_list xs / real (length xs)))"

text \<open>
  The setting in the words of the specification: it is accepted when it parses as a
  positive integer below 86400, here a plain decimal numeral, and the window is 900
  otherwise. \<open>starts_numeric\<close> says that a text begins with a digit, or with a sign
  and a digit.
\<close>

definition decimal_value :: "string \<Rightarrow> int" where
  "decimal_value ds = foldl (\<lambda>a c. 10 * a + (int (of_char c) - 48)) 0 ds"

definition is_decimal :: "string \<Rightarrow> bool" where
  "is_decimal s = (s \<noteq> [] \<and> list_all isdigit s)"

definition spec_stale_secs :: "string option \<Rightarrow> int" where
  "spec_stale_secs e =
     (case e of
        None \<Rightarrow> 900
      | Some s \<Rightarrow>
          if is_decimal s \<and> 0 < decimal_value s \<and> decimal_value s < 86400
          then decimal_value s else 900)"

definition starts_with :: "(char \<Rightarrow> bool) \<Rightarrow> string \<Rightarrow> bool" where
  "starts_with P s = (case s of [] \<Rightarrow> False | c # cs \<Rightarrow> P c)"

definition starts_numeric :: "string \<Rightarrow> bool" where
  "starts_numeric x =
     (starts_with isdigit x \<or>
      (starts_with (\<lambda>c. c = CHR ''+'' \<or> c = CHR ''-'') x \<and> starts_with isdigit (tl x)))"

text \<open>
  What can be asked of the arithmetic of a machine: on a result whose magnitude lies
  between \<open>1/1000\<close> and \<open>1000\<close>, each of the four operations returns a number within
  the relative error \<open>u\<close> of the exact result, and \<open>log\<close> a number within \<open>u\<close> of
  the logarithm. IEEE double arithmetic, which rounds the exact result of an operation
  to 53 bits, with a libm good to a few units in the last place, meets this with
  \<open>u = 10^-14\<close>.
\<close>

definition in_range :: "real \<Rightarrow> bool" where
  "in_range v = (1 / 1000 \<le> \<bar>v\<bar> \<and> \<bar>v\<bar> \<le> 1000)"

definition close_to :: "real \<Rightarrow> double \<Rightarrow> real \<Rightarrow> bool" where
  "close_to u d v = (\<exists>z. d = Num z \<and> \<bar>z - v\<bar> \<le> u * \<bar>v\<bar>)"

definition fp_accurate :: "fp_ops \<Rightarrow> real \<Rightarrow> bool" where
  "fp_accurate fp u =
     (\<forall>x y.
        (in_range (x + y) \<longrightarrow> close_to u (fp_add fp (Num x) (Num y)) (x + y)) \<and>
        (in_range (x - y) \<longrightarrow> close_to u (fp_sub fp (Num x) (Num y)) (x - y)) \<and>
        (in_range (x * y) \<longrightarrow> close_to u (fp_mul fp (Num x) (Num y)) (x * y)) \<and>
        (y \<noteq> 0 \<and> in_range (x / y) \<longrightarrow> close_to u (fp_div fp (Num x) (Num y)) (x / y)) \<and>
        (0 < x \<and> in_range x \<longrightarrow> (\<exists>l. fp_log fp (Num x) = Num l \<and> \<bar>l - ln x\<bar> \<le> u)))"

text \<open>
  An arithmetic without rounding, to show that such arithmetics exist. It is not the
  machine's: it has no largest number and divides by zero as HOL does.
\<close>

definition lift2 :: "(real \<Rightarrow> real \<Rightarrow> real) \<Rightarrow> double \<Rightarrow> double \<Rightarrow> double" where
  "lift2 f a b = (case (a, b) of (Num x, Num y) \<Rightarrow> Num (f x y) | _ \<Rightarrow> NaN)"

definition exact_fp :: fp_ops where
  "exact_fp =
     \<lparr>fp_add = lift2 (\<lambda>x y. x + y), fp_sub = lift2 (\<lambda>x y. x - y),
      fp_mul = lift2 (\<lambda>x y. x * y), fp_div = lift2 (\<lambda>x y. x / y),
      fp_log = (\<lambda>a. case a of Num x \<Rightarrow> Num (ln x) | _ \<Rightarrow> NaN)\<rparr>"

section \<open>The queue holds the last \<open>cap - 1\<close> lines\<close>

lemma mod_add_inj:
  fixes h i j c :: nat
  assumes "i < c" "j < c"
  shows "((h + i) mod c = (h + j) mod c) = (i = j)"
proof
  assume e: "(h + i) mod c = (h + j) mod c"
  show "i = j"
  proof (rule ccontr)
    assume ne: "i \<noteq> j"
    have *: "\<And>a b::nat. a < b \<Longrightarrow> b < c \<Longrightarrow> (h + a) mod c = (h + b) mod c \<Longrightarrow> False"
    proof -
      fix a b :: nat assume ab: "a < b" "b < c" and m: "(h + a) mod c = (h + b) mod c"
      have "(h + b - (h + a)) mod c = 0"
        using m ab by (metis add_le_cancel_left less_imp_le_nat mod_eq_dvd_iff_nat dvd_eq_mod_eq_0)
      then have "(b - a) mod c = 0" by simp
      then show False using ab by simp
    qed
    from ne have "i < j \<or> j < i" by arith
    then show False using * assms e by metis
  qed
qed simp

lemma cap_push: "cap (q_push q x) = cap q"
  by (simp add: q_push_def Let_def)

lemma holds_push_room:
  assumes h: "holds q ls" and r: "length ls + 1 < cap q"
  shows "holds (q_push q x) (ls @ [x])"
proof -
  let ?c = "cap q" and ?n = "length ls" and ?h = "head q"
  from h have c: "0 < ?c" "length (buf q) = ?c" "?h < ?c" "?n < ?c"
    and t: "tail q = (?h + ?n) mod ?c"
    and e: "\<forall>i<?n. buf q ! ((?h + i) mod ?c) = Some (ls ! i)"
    by (simp_all add: holds_def)
  have "(?h + (?n + 1)) mod ?c \<noteq> (?h + 0) mod ?c"
    using r by (subst mod_add_inj) simp_all
  then have nx: "(tail q + 1) mod ?c \<noteq> ?h"
    using c t by (simp add: mod_Suc_eq)
  have q': "q_push q x = q\<lparr>buf := (buf q)[tail q := Some x], tail := (tail q + 1) mod ?c\<rparr>"
    using nx by (simp add: q_push_def Let_def)
  have tl: "tail q < ?c" using t c by simp
  have "\<forall>i<?n + 1. ((buf q)[tail q := Some x]) ! ((?h + i) mod ?c) = Some ((ls @ [x]) ! i)"
  proof (intro allI impI)
    fix i assume i: "i < ?n + 1"
    show "((buf q)[tail q := Some x]) ! ((?h + i) mod ?c) = Some ((ls @ [x]) ! i)"
    proof (cases "i = ?n")
      case True
      then show ?thesis using t tl c by simp
    next
      case False
      with i have il: "i < ?n" by simp
      then have "(?h + i) mod ?c \<noteq> (?h + ?n) mod ?c"
        using c by (subst mod_add_inj) simp_all
      then show ?thesis using il e t by (simp add: nth_append)
    qed
  qed
  then show ?thesis
    using c r t by (simp add: holds_def q' mod_Suc_eq)
qed

lemma holds_push_full:
  assumes h: "holds q ls" and r: "length ls + 1 = cap q"
  shows "holds (q_push q x) (tl (ls @ [x]))"
proof -
  let ?c = "cap q" and ?n = "length ls" and ?h = "head q"
  from h have c: "0 < ?c" "length (buf q) = ?c" "?h < ?c" "?n < ?c"
    and t: "tail q = (?h + ?n) mod ?c"
    and e: "\<forall>i<?n. buf q ! ((?h + i) mod ?c) = Some (ls ! i)"
    by (simp_all add: holds_def)
  have wrap: "(?h + (?n + 1)) mod ?c = ?h"
    using r c by simp
  then have nx: "(tail q + 1) mod ?c = ?h"
    using c t by (simp add: mod_Suc_eq)
  let ?h' = "(?h + 1) mod ?c"
  have q': "q_push q x = q\<lparr>buf := (buf q)[?h := None, tail q := Some x], head := ?h', tail := ?h\<rparr>"
    using nx by (simp add: q_push_def Let_def)
  have tl: "tail q < ?c" using t c by simp
  have len: "length (tl (ls @ [x])) = ?n" by simp
  have hh: "(?h' + i) mod ?c = (?h + (i + 1)) mod ?c" for i
    by (simp add: mod_simps)
  have "\<forall>i<?n. ((buf q)[?h := None, tail q := Some x]) ! ((?h' + i) mod ?c) = Some (tl (ls @ [x]) ! i)"
  proof (intro allI impI)
    fix i assume i: "i < ?n"
    show "((buf q)[?h := None, tail q := Some x]) ! ((?h' + i) mod ?c) = Some (tl (ls @ [x]) ! i)"
    proof (cases "i + 1 = ?n")
      case True
      have "(?h' + i) mod ?c = tail q" unfolding hh t True ..
      moreover have "tl (ls @ [x]) ! i = x"
        using True by (simp add: nth_tl nth_append)
      ultimately show ?thesis using tl c by simp
    next
      case False
      with i have il: "i + 1 < ?n" by simp
      then have n1: "(?h + (i + 1)) mod ?c \<noteq> (?h + ?n) mod ?c"
        using c by (subst mod_add_inj) simp_all
      have n2: "(?h + (i + 1)) mod ?c \<noteq> (?h + 0) mod ?c"
        using c il by (subst mod_add_inj) simp_all
      have "tl (ls @ [x]) ! i = ls ! (i + 1)"
        using il by (simp add: nth_tl nth_append)
      moreover have "buf q ! ((?h + (i + 1)) mod ?c) = Some (ls ! (i + 1))"
        using e il by blast
      ultimately show ?thesis using n1 n2 t c unfolding hh by simp
    qed
  qed
  moreover have "?h = (?h' + ?n) mod ?c"
    unfolding hh wrap ..
  ultimately show ?thesis
    using c by (simp add: holds_def q' del: tl_append2)
qed


lemma keep_last_app: "keep_last n (keep_last n xs @ ys) = keep_last n (xs @ ys)"
proof -
  have "length ys + length xs - (length xs - n + n) + (length xs - n) = length ys + length xs - n"
    by arith
  then show ?thesis by (simp add: keep_last_def add.commute)
qed

lemma holds_push:
  assumes h: "holds q ls"
  shows "holds (q_push q x) (keep_last (cap q - 1) (ls @ [x]))"
proof (cases "length ls + 1 < cap q")
  case True
  then have "keep_last (cap q - 1) (ls @ [x]) = ls @ [x]" by (simp add: keep_last_def)
  then show ?thesis using holds_push_room [OF h True] by simp
next
  case False
  with h have f: "length ls + 1 = cap q" by (simp add: holds_def)
  then have "keep_last (cap q - 1) (ls @ [x]) = tl (ls @ [x])"
    by (cases ls) (simp_all add: keep_last_def drop_Suc)
  then show ?thesis using holds_push_full [OF h f] by simp
qed

lemma holds_push_all:
  "holds q ls \<Longrightarrow> holds (push_all q xs) (keep_last (cap q - 1) (ls @ xs)) \<and> cap (push_all q xs) = cap q"
proof (induction xs arbitrary: q ls)
  case Nil
  then show ?case by (simp add: push_all_def keep_last_def holds_def)
next
  case (Cons x xs)
  have "holds (q_push q x) (keep_last (cap q - 1) (ls @ [x]))"
    using Cons.prems by (rule holds_push)
  from Cons.IH [OF this] have
    "holds (push_all (q_push q x) xs) (keep_last (cap q - 1) (keep_last (cap q - 1) (ls @ [x]) @ xs))"
    and "cap (push_all (q_push q x) xs) = cap q"
    by (simp_all add: cap_push)
  moreover have "keep_last n (keep_last n (ls @ [x]) @ xs) = keep_last n (ls @ x # xs)" for n
    using keep_last_app [of n "ls @ [x]" xs] by simp
  ultimately show ?case by (simp add: push_all_def)
qed

lemma pop_empty: "holds q [] \<Longrightarrow> q_pop_nowait q = (None, q)"
  by (simp add: holds_def q_pop_nowait_def)

lemma pop_cons:
  assumes h: "holds q (x # ls)"
  shows "\<exists>q'. q_pop_nowait q = (Some x, q') \<and> holds q' ls"
proof -
  let ?c = "cap q" and ?n = "length ls" and ?h = "head q"
  from h have c: "0 < ?c" "length (buf q) = ?c" "?h < ?c" "Suc ?n < ?c"
    and t: "tail q = (?h + Suc ?n) mod ?c"
    and e: "\<forall>i<Suc ?n. buf q ! ((?h + i) mod ?c) = Some ((x # ls) ! i)"
    by (simp_all add: holds_def)
  have "(?h + Suc ?n) mod ?c \<noteq> (?h + 0) mod ?c"
    using c by (subst mod_add_inj) simp_all
  then have ne: "?h \<noteq> tail q" using t c by simp
  from e have "buf q ! ((?h + 0) mod ?c) = Some ((x # ls) ! 0)" by blast
  then have b: "buf q ! ?h = Some x" using c by simp
  let ?h' = "(?h + 1) mod ?c"
  let ?q' = "q\<lparr>buf := (buf q)[?h := None], head := ?h'\<rparr>"
  have p: "q_pop_nowait q = (Some x, ?q')"
    using ne b by (simp add: q_pop_nowait_def)
  have hh: "(?h' + i) mod ?c = (?h + Suc i) mod ?c" for i
    by (simp add: mod_simps)
  have "\<forall>i<?n. ((buf q)[?h := None]) ! ((?h' + i) mod ?c) = Some (ls ! i)"
  proof (intro allI impI)
    fix i assume i: "i < ?n"
    have "(?h + Suc i) mod ?c \<noteq> (?h + 0) mod ?c"
      using c i by (subst mod_add_inj) simp_all
    moreover have "buf q ! ((?h + Suc i) mod ?c) = Some ((x # ls) ! Suc i)"
      using e i by blast
    ultimately show "((buf q)[?h := None]) ! ((?h' + i) mod ?c) = Some (ls ! i)"
      using c unfolding hh by simp
  qed
  moreover have "tail q = (?h' + ?n) mod ?c"
    unfolding hh t ..
  ultimately have "holds ?q' ls"
    using c by (simp add: holds_def)
  with p show ?thesis by blast
qed

lemma drain_holds: "holds q ls \<Longrightarrow> \<exists>q'. drain q acc = Some (acc @ ls, q')"
proof (induction ls arbitrary: q acc)
  case Nil
  then show ?case by (subst drain.simps) (simp add: pop_empty)
next
  case (Cons x ls)
  from pop_cons [OF Cons.prems] obtain q' where p: "q_pop_nowait q = (Some x, q')" and h: "holds q' ls"
    by blast
  from Cons.IH [OF h, of "acc @ [x]"] show ?case
    by (subst drain.simps) (simp add: p)
qed

lemma drained_push_all:
  assumes "0 < c"
  shows "drained (push_all (q_create c) ls) = Some (keep_last (c - 1) ls)"
proof -
  have "holds (q_create c) []" using assms by (simp add: holds_def q_create_def)
  from holds_push_all [OF this, of ls]
  have "holds (push_all (q_create c) ls) (keep_last (c - 1) ls)"
    by (simp add: q_create_def)
  from drain_holds [OF this, of "[]"] show ?thesis
    by (auto simp: drained_def)
qed

text \<open>
  C2 (as the code has it). A queue created with \<open>c \<ge> 1\<close> slots keeps one slot
  free: after pushing any lines into the empty queue, popping until empty returns, and
  delivers the most recent \<open>c - 1\<close> of them in the order they were pushed. After
  \<open>c + 1\<close> pushes these are all but the two oldest lines. \<open>q_push\<close> is a total
  function with no error branch.
\<close>

theorem queue_keeps_last_cap_minus_one:
  "0 < c \<Longrightarrow>
     drained (push_all (q_create c) ls) = Some (drop (length ls - (c - 1)) ls) \<and>
     (length ls = c + 1 \<longrightarrow> drained (push_all (q_create c) ls) = Some (drop 2 ls))"
  using drained_push_all [of c ls] by (auto simp: keep_last_def)

theorem queue_keeps_last_cap_minus_one_witness:
  "(0::nat) < 3 \<and> length [''l1'', ''l2'', ''l3'', ''l4''] = 3 + 1 \<and>
   drained (push_all (q_create 3) [''l1'', ''l2'', ''l3'', ''l4'']) = Some [''l3'', ''l4'']"
  using queue_keeps_last_cap_minus_one [of 3 "[''l1'', ''l2'', ''l3'', ''l4'']"] by simp

text \<open>
  C2 as stated fails: with capacity 3, four pushes leave two lines, not the most
  recent three.
\<close>

theorem queue_capacity_counterexample:
  "drained (push_all (q_create 3) [''l1'', ''l2'', ''l3'', ''l4'']) = Some [''l3'', ''l4''] \<and>
   drained (push_all (q_create 3) [''l1'', ''l2'', ''l3'', ''l4'']) \<noteq> Some [''l2'', ''l3'', ''l4'']"
  using drained_push_all [of 3 "[''l1'', ''l2'', ''l3'', ''l4'']"] by (simp add: keep_last_def)

section \<open>The scroll state and the first visible row\<close>

lemma imax_nonneg: "0 \<le> imax 0 a"
  by (simp add: imax_def)

lemma handle_key_nonneg:
  "handle_key ch (s, r) = Some (s', r') \<Longrightarrow> 0 \<le> s \<Longrightarrow> 0 \<le> s'"
  by (auto simp: handle_key_def imax_nonneg split: if_splits)

lemma handle_key_bound:
  "0 \<le> s \<Longrightarrow> s + 10 \<le> INT_MAX \<Longrightarrow> \<exists>s' r'. handle_key ch (s, r) = Some (s', r') \<and> s' \<le> s + 10"
  by (auto simp: handle_key_def imax_def)

lemma run_keys_nonneg:
  "run_keys chs (s, r) = Some (s', r') \<Longrightarrow> 0 \<le> s \<Longrightarrow> 0 \<le> s'"
proof (induction chs arbitrary: s r)
  case Nil
  then show ?case by simp
next
  case (Cons ch chs)
  show ?case
  proof (cases r)
    case False
    with Cons.prems show ?thesis by simp
  next
    case True
    with Cons.prems obtain s1 r1 where
      h: "handle_key ch (s, r) = Some (s1, r1)" and k: "run_keys chs (s1, r1) = Some (s', r')"
      by (auto split: option.splits)
    from handle_key_nonneg [OF h Cons.prems(2)] have "0 \<le> s1" .
    with Cons.IH [OF k] show ?thesis .
  qed
qed

lemma run_keys_returns:
  "0 \<le> s \<Longrightarrow> s + 10 * int (length chs) \<le> INT_MAX \<Longrightarrow> \<exists>st. run_keys chs (s, r) = Some st"
proof (induction chs arbitrary: s r)
  case Nil
  then show ?case by simp
next
  case (Cons ch chs)
  show ?case
  proof (cases r)
    case False
    then show ?thesis by auto
  next
    case True
    from Cons.prems have "s + 10 \<le> INT_MAX" by simp
    from handle_key_bound [OF Cons.prems(1) this, of ch r] obtain s1 r1 where
      h: "handle_key ch (s, r) = Some (s1, r1)" and b: "s1 \<le> s + 10"
      by blast
    from handle_key_nonneg [OF h Cons.prems(1)] have n: "0 \<le> s1" .
    from b Cons.prems have "s1 + 10 * int (length chs) \<le> INT_MAX" by simp
    from Cons.IH [OF n this, of r1] show ?thesis
      using True h by simp
  qed
qed

lemma table_start_in_range: "in_scroll_range (table_start scroll rc max_rows) rc max_rows"
  by (simp add: in_scroll_range_def table_start_def imax_def Let_def)

text \<open>
  C1 (as the code has it). From \<open>scroll = 0\<close>, any sequence of keys short enough
  for the counter to stay a C \<open>int\<close> leaves a scroll state that is not negative, and
  the first row the table shows for it lies in
  \<open>[0, max(0, total_rows - visible_rows)]\<close>. The stored scroll state itself has no
  upper clamp.
\<close>

theorem scroll_clamped_at_draw:
  "10 * int (length chs) \<le> INT_MAX \<Longrightarrow>
     \<exists>s r. run_keys chs (0, True) = Some (s, r) \<and> 0 \<le> s \<and>
       in_scroll_range (table_start s total_rows visible_rows) total_rows visible_rows"
proof -
  assume "10 * int (length chs) \<le> INT_MAX"
  then have "\<exists>st. run_keys chs (0, True) = Some st"
    using run_keys_returns [of 0 chs True] by simp
  then obtain s r where k: "run_keys chs (0, True) = Some (s, r)" by auto
  from run_keys_nonneg [OF k] have "0 \<le> s" by simp
  with k table_start_in_range show ?thesis by blast
qed

theorem scroll_clamped_at_draw_witness:
  "run_keys [KEY_NPAGE, KEY_DOWN, KEY_UP] (0, True) = Some (10, True) \<and>
   table_start 10 3 5 = 0 \<and> in_scroll_range (table_start 10 3 5) 3 5"
  using scroll_clamped_at_draw [of "[KEY_NPAGE, KEY_DOWN, KEY_UP]" 3 5]
  by (simp add: INT_MAX_def handle_key_def imax_def table_start_def)

text \<open>
  C1 as stated fails: with three rows in a viewport of five, one scroll-down leaves the
  scroll state at 1, outside \<open>[0, max(0, 3 - 5)] = [0, 0]\<close>.
\<close>

theorem scroll_state_counterexample:
  "run_keys [KEY_DOWN] (0, True) = Some (1, True) \<and> \<not> in_scroll_range 1 3 5"
  by (simp add: handle_key_def INT_MAX_def in_scroll_range_def)

section \<open>The device table: lookup, merge and exclusion\<close>

lemma strcmp_eq_0: "(strcmp a b = 0) = (a = b)"
  by (induction a b rule: strcmp.induct) auto

lemma equals_ci_map: "equals_ci a b = (map tolower a = map tolower b)"
  by (induction a b rule: equals_ci.induct) auto

lemma equals_ci_length: "equals_ci a b \<Longrightarrow> length a = length b"
  by (metis equals_ci_map length_map)

lemma find_device_from_range:
  "find_device_from i ident loc ds = - 1 \<or>
   (int i \<le> find_device_from i ident loc ds \<and> find_device_from i ident loc ds < int i + int (length ds))"
proof (induction ds arbitrary: i)
  case Nil
  then show ?case by simp
next
  case (Cons d ds)
  from Cons.IH [of "i + 1"] show ?case by auto
qed

lemma find_device_from_none:
  "(find_device_from i ident loc ds = - 1) =
   (\<forall>d \<in> set ds. \<not> (id_str d = ident \<and> location d = loc))"
proof (induction ds arbitrary: i)
  case Nil
  then show ?case by simp
next
  case (Cons d ds)
  then show ?case by (auto simp: strcmp_eq_0)
qed

lemma find_device_from_first:
  assumes "k < length ds" "id_str (ds ! k) = ident" "location (ds ! k) = loc"
    and "\<forall>j<k. \<not> (id_str (ds ! j) = ident \<and> location (ds ! j) = loc)"
  shows "find_device_from i ident loc ds = int (i + k)"
  using assms
proof (induction ds arbitrary: i k)
  case Nil
  then show ?case by simp
next
  case (Cons d ds)
  show ?case
  proof (cases k)
    case 0
    with Cons.prems show ?thesis by (simp add: strcmp_eq_0)
  next
    case (Suc k')
    with Cons.prems have nd: "\<not> (id_str d = ident \<and> location d = loc)" by auto
    have "find_device_from (i + 1) ident loc ds = int (i + 1 + k')"
    proof (rule Cons.IH)
      show "k' < length ds" using Cons.prems Suc by simp
      show "id_str (ds ! k') = ident" "location (ds ! k') = loc" using Cons.prems Suc by simp_all
      show "\<forall>j<k'. \<not> (id_str (ds ! j) = ident \<and> location (ds ! j) = loc)"
      proof (intro allI impI)
        fix j assume "j < k'"
        then have "Suc j < k" using Suc by simp
        with Cons.prems(4) have "\<not> (id_str ((d # ds) ! Suc j) = ident \<and> location ((d # ds) ! Suc j) = loc)"
          by blast
        then show "\<not> (id_str (ds ! j) = ident \<and> location (ds ! j) = loc)" by simp
      qed
    qed
    with nd Suc show ?thesis by (auto simp: strcmp_eq_0)
  qed
qed

lemma find_device_first:
  assumes "k < length ds" "id_str (ds ! k) = ident" "location (ds ! k) = loc"
    and "\<forall>j<k. \<not> (id_str (ds ! j) = ident \<and> location (ds ! j) = loc)"
  shows "find_device ident loc ds = int k"
  using find_device_from_first [OF assms, of 0] by (simp add: find_device_def)

lemma find_device_none:
  "(find_device ident loc ds < 0) = (\<forall>d \<in> set ds. \<not> (id_str d = ident \<and> location d = loc))"
  using find_device_from_range [of 0 ident loc ds] find_device_from_none [of 0 ident loc ds]
  by (auto simp: find_device_def)

lemma upsert_excluded: "excluded_location (r_location r) \<Longrightarrow> upsert r devices = devices"
  by (simp add: upsert_def)

lemma upsert_existing:
  assumes "\<not> excluded_location (r_location r)"
    and "k < length devices" "id_str (devices ! k) = r_id r" "location (devices ! k) = r_location r"
    and "\<forall>j<k. \<not> (id_str (devices ! j) = r_id r \<and> location (devices ! j) = r_location r)"
  shows "upsert r devices = devices[k := store_reading r (devices ! k)]"
  using assms(1) find_device_first [OF assms(2-5)] by (simp add: upsert_def)

lemma upsert_new:
  assumes "\<not> excluded_location (r_location r)"
    and "\<forall>d \<in> set devices. \<not> (id_str d = r_id r \<and> location d = r_location r)"
    and "length devices < MAX_DEVICES"
  shows "upsert r devices = devices @ [store_reading r
            \<lparr>id_str = snprintf_s MAX_ID_LEN (r_id r), location = snprintf_s MAX_LOC_LEN (r_location r),
             ts = 0, temp = 0, has_temp = False, rh = 0, has_rh = False\<rparr>]"
proof -
  have "find_device (r_id r) (r_location r) devices < 0"
    using assms(2) by (simp add: find_device_none)
  then show ?thesis
    using assms(1,3) by (simp add: upsert_def add_device_def)
qed


lemma store_reading_fields:
  "store_reading r d =
     d\<lparr>ts := r_ts r,
       temp := (case r_temp r of None \<Rightarrow> temp d | Some v \<Rightarrow> v),
       has_temp := (has_temp d \<or> r_temp r \<noteq> None),
       rh := (case r_rh r of None \<Rightarrow> rh d | Some v \<Rightarrow> v),
       has_rh := (has_rh d \<or> r_rh r \<noteq> None)\<rparr>"
  by (simp add: store_reading_def split: option.splits)

lemma store_reading_key:
  "id_str (store_reading r d) = id_str d" "location (store_reading r d) = location d"
  by (simp_all add: store_reading_fields)

lemma snprintf_s_short: "length s < n \<Longrightarrow> snprintf_s n s = s"
  by (simp add: snprintf_s_def)

lemma merge_example:
  assumes "\<not> excluded_location Y" "length X < MAX_ID_LEN" "length Y < MAX_LOC_LEN"
  shows "upsert \<lparr>r_id = X, r_location = Y, r_ts = t2, r_temp = None, r_rh = Some 55\<rparr>
           (upsert \<lparr>r_id = X, r_location = Y, r_ts = t1, r_temp = Some 20, r_rh = None\<rparr> [])
         = [\<lparr>id_str = X, location = Y, ts = t2, temp = 20, has_temp = True, rh = 55, has_rh = True\<rparr>]"
proof -
  let ?r1 = "\<lparr>r_id = X, r_location = Y, r_ts = t1, r_temp = Some 20, r_rh = None\<rparr>"
  let ?r2 = "\<lparr>r_id = X, r_location = Y, r_ts = t2, r_temp = None, r_rh = Some 55\<rparr>"
  let ?d1 = "\<lparr>id_str = X, location = Y, ts = t1, temp = 20, has_temp = True, rh = 0, has_rh = False\<rparr>"
  have 1: "upsert ?r1 [] = [?d1]"
    using assms upsert_new [of ?r1 "[]"]
    by (simp add: snprintf_s_short store_reading_fields MAX_DEVICES_def)
  have 2: "upsert ?r2 [?d1] = [?d1][0 := store_reading ?r2 ([?d1] ! 0)]"
    using assms by (intro upsert_existing) simp_all
  show ?thesis unfolding 1 2 by (simp add: store_reading_fields)
qed

lemma decode_none:
  assumes "json_loads line = None \<or> \<not> json_is_object (json_loads line) \<or>
     (\<not> json_is_string (json_object_get (json_loads line) ''id'') \<and>
      \<not> json_is_string (json_object_get (json_loads line) ''device_id''))"
  shows "decode_reading json_loads now line = None"
  using assms by (auto simp: decode_reading_def string_field_def Let_def)

lemma not_excluded_take:
  assumes "\<not> excluded_location loc"
  shows "\<not> excluded_location (snprintf_s MAX_LOC_LEN loc)"
proof
  assume e: "excluded_location (snprintf_s MAX_LOC_LEN loc)"
  then have "length (take 95 loc) = 5"
    using equals_ci_length [of "take 95 loc" "''attic''"]
    by (simp add: excluded_location_def snprintf_s_def MAX_LOC_LEN_def)
  then have "length loc = 5" by (simp add: min_def split: if_splits)
  then have "take 95 loc = loc" by simp
  with e assms show False by (simp add: snprintf_s_def MAX_LOC_LEN_def)
qed

lemma update_preserves:
  assumes "\<forall>d \<in> set ds. P d" and "\<And>d. P d \<Longrightarrow> P (f d)"
  shows "\<forall>d \<in> set (ds[i := f (ds ! i)]). P d"
proof (cases "i < length ds")
  case True
  then have "P (f (ds ! i))" using assms by simp
  then show ?thesis using assms(1) set_update_subset_insert [of ds i "f (ds ! i)"] by auto
next
  case False
  then have "length ds \<le> i" by simp
  then have "ds[i := f (ds ! i)] = ds" by (rule list_update_beyond)
  then show ?thesis using assms(1) by simp
qed

lemma upsert_no_excluded:
  assumes "\<forall>d \<in> set devices. \<not> excluded_location (location d)"
  shows "\<forall>d \<in> set (upsert r devices). \<not> excluded_location (location d)"
proof (cases "excluded_location (r_location r)")
  case True
  then show ?thesis using assms by (simp add: upsert_def)
next
  case False
  let ?P = "\<lambda>d. \<not> excluded_location (location d)"
  let ?new = "\<lparr>id_str = snprintf_s MAX_ID_LEN (r_id r), location = snprintf_s MAX_LOC_LEN (r_location r),
                ts = 0, temp = 0, has_temp = False, rh = 0, has_rh = False\<rparr>"
  have st: "\<And>d. ?P d \<Longrightarrow> ?P (store_reading r d)" by (simp add: store_reading_key)
  have a: "\<forall>d \<in> set (devices @ [?new]). ?P d"
    using assms not_excluded_take [OF False] by simp
  have b: "\<forall>d \<in> set (devices[i := store_reading r (devices ! i)]). ?P d" for i
    using update_preserves [of devices ?P "store_reading r" i, OF assms st] by blast
  have c: "\<forall>d \<in> set ((devices @ [?new])[i := store_reading r ((devices @ [?new]) ! i)]). ?P d" for i
    using update_preserves [of "devices @ [?new]" ?P "store_reading r" i, OF a st] by blast
  let ?idx = "find_device (r_id r) (r_location r) devices"
  show ?thesis
  proof (cases "?idx < 0")
    case neg: True
    show ?thesis
    proof (cases "length devices \<ge> MAX_DEVICES")
      case True
      then have "upsert r devices = devices"
        using False neg by (simp add: upsert_def add_device_def Let_def)
      then show ?thesis using assms by simp
    next
      case room: False
      then have "upsert r devices =
          (devices @ [?new])[length devices := store_reading r ((devices @ [?new]) ! length devices)]"
        using False neg by (simp add: upsert_def add_device_def Let_def)
      then show ?thesis using c [of "length devices"] by simp
    qed
  next
    case nonneg: False
    then have "upsert r devices = devices[nat ?idx := store_reading r (devices ! nat ?idx)]"
      using False by (simp add: upsert_def Let_def)
    then show ?thesis using b [of "nat ?idx"] by simp
  qed
qed

lemma process_json_line_no_excluded:
  assumes "\<forall>d \<in> set devices. \<not> excluded_location (location d)"
  shows "\<forall>d \<in> set (process_json_line json_loads now line devices). \<not> excluded_location (location d)"
  using assms upsert_no_excluded by (simp add: process_json_line_def split: option.splits)

lemma process_lines_no_excluded:
  assumes "\<forall>d \<in> set devices. \<not> excluded_location (location d)"
  shows "\<forall>d \<in> set (process_lines json_loads nls devices). \<not> excluded_location (location d)"
  using assms
proof (induction nls arbitrary: devices)
  case Nil
  then show ?case by (simp add: process_lines_def)
next
  case (Cons nl nls)
  obtain now line where nl: "nl = (now, line)" by (cases nl)
  from process_json_line_no_excluded [OF Cons.prems, of json_loads now line]
  have "\<forall>d \<in> set (process_lines json_loads nls (process_json_line json_loads now line devices)).
          \<not> excluded_location (location d)"
    by (rule Cons.IH)
  then show ?case by (simp add: process_lines_def nl)
qed

lemma set_qsort_insert: "set (qsort_insert cmp x xs) = insert x (set xs)"
  by (induction xs) auto

lemma set_qsort: "set (qsort cmp xs) = set xs"
  by (induction xs) (simp_all add: qsort_def set_qsort_insert)

lemma length_qsort_insert: "length (qsort_insert cmp x xs) = Suc (length xs)"
  by (induction xs) auto

lemma length_qsort: "length (qsort cmp xs) = length xs"
  by (induction xs) (simp_all add: qsort_def length_qsort_insert)

lemma set_table_rows: "set (table_rows devices) = {d \<in> set devices. \<not> excluded_location (location d)}"
  by (simp add: table_rows_def set_qsort)

text \<open>
  C3. An upsert into an existing entry with the reading's key, at a location that is not
  excluded, overwrites the timestamp with the reading's whatever its value, and
  overwrites temperature and humidity only where the reading carries them. Upserting
  \<open>{id=X, loc=Y, temp=20}\<close> and then \<open>{id=X, loc=Y, rh=55}\<close> into the empty table
  leaves one entry with both values (\<open>X\<close> and \<open>Y\<close> as the decoder delivers them,
  shorter than their buffers).
\<close>

theorem upsert_merges_fields:
  "(\<not> excluded_location (r_location r) \<and> k < length devices \<and>
    id_str (devices ! k) = r_id r \<and> location (devices ! k) = r_location r \<and>
    (\<forall>j<k. \<not> (id_str (devices ! j) = r_id r \<and> location (devices ! j) = r_location r))
    \<longrightarrow> upsert r devices =
          devices[k := (devices ! k)\<lparr>ts := r_ts r,
             temp := (case r_temp r of None \<Rightarrow> temp (devices ! k) | Some v \<Rightarrow> v),
             has_temp := (has_temp (devices ! k) \<or> r_temp r \<noteq> None),
             rh := (case r_rh r of None \<Rightarrow> rh (devices ! k) | Some v \<Rightarrow> v),
             has_rh := (has_rh (devices ! k) \<or> r_rh r \<noteq> None)\<rparr>]) \<and>
   (\<not> excluded_location Y \<and> length X < MAX_ID_LEN \<and> length Y < MAX_LOC_LEN
    \<longrightarrow> upsert \<lparr>r_id = X, r_location = Y, r_ts = t2, r_temp = None, r_rh = Some 55\<rparr>
           (upsert \<lparr>r_id = X, r_location = Y, r_ts = t1, r_temp = Some 20, r_rh = None\<rparr> [])
         = [\<lparr>id_str = X, location = Y, ts = t2, temp = 20, has_temp = True, rh = 55, has_rh = True\<rparr>])"
proof (intro conjI impI)
  assume a: "\<not> excluded_location (r_location r) \<and> k < length devices \<and>
    id_str (devices ! k) = r_id r \<and> location (devices ! k) = r_location r \<and>
    (\<forall>j<k. \<not> (id_str (devices ! j) = r_id r \<and> location (devices ! j) = r_location r))"
  then have "upsert r devices = devices[k := store_reading r (devices ! k)]"
    by (intro upsert_existing) simp_all
  then show "upsert r devices =
          devices[k := (devices ! k)\<lparr>ts := r_ts r,
             temp := (case r_temp r of None \<Rightarrow> temp (devices ! k) | Some v \<Rightarrow> v),
             has_temp := (has_temp (devices ! k) \<or> r_temp r \<noteq> None),
             rh := (case r_rh r of None \<Rightarrow> rh (devices ! k) | Some v \<Rightarrow> v),
             has_rh := (has_rh (devices ! k) \<or> r_rh r \<noteq> None)\<rparr>]"
    by (simp only: store_reading_fields)
next
  assume "\<not> excluded_location Y \<and> length X < MAX_ID_LEN \<and> length Y < MAX_LOC_LEN"
  then show "upsert \<lparr>r_id = X, r_location = Y, r_ts = t2, r_temp = None, r_rh = Some 55\<rparr>
           (upsert \<lparr>r_id = X, r_location = Y, r_ts = t1, r_temp = Some 20, r_rh = None\<rparr> [])
         = [\<lparr>id_str = X, location = Y, ts = t2, temp = 20, has_temp = True, rh = 55, has_rh = True\<rparr>]"
    using merge_example by blast
qed

theorem upsert_merges_fields_witness:
  "upsert \<lparr>r_id = ''X'', r_location = ''Y'', r_ts = 50, r_temp = None, r_rh = Some 55\<rparr>
     [\<lparr>id_str = ''X'', location = ''Y'', ts = 100, temp = 20, has_temp = True, rh = 0, has_rh = False\<rparr>]
   = [\<lparr>id_str = ''X'', location = ''Y'', ts = 50, temp = 20, has_temp = True, rh = 55, has_rh = True\<rparr>] \<and>
   upsert \<lparr>r_id = ''X'', r_location = ''Y'', r_ts = 50, r_temp = None, r_rh = Some 55\<rparr>
     (upsert \<lparr>r_id = ''X'', r_location = ''Y'', r_ts = 100, r_temp = Some 20, r_rh = None\<rparr> [])
   = [\<lparr>id_str = ''X'', location = ''Y'', ts = 50, temp = 20, has_temp = True, rh = 55, has_rh = True\<rparr>]"
  using upsert_merges_fields [of "\<lparr>r_id = ''X'', r_location = ''Y'', r_ts = 50, r_temp = None, r_rh = Some 55\<rparr>" 0
     "[\<lparr>id_str = ''X'', location = ''Y'', ts = 100, temp = 20, has_temp = True, rh = 0, has_rh = False\<rparr>]"
     "''Y''" "''X''" 50 100]
  by (simp add: excluded_location_def tolower_def MAX_ID_LEN_def MAX_LOC_LEN_def)

text \<open>
  C9. A line that jansson does not parse, a JSON value that is not an object, and an
  object with neither a string \<open>"id"\<close> nor a string \<open>"device_id"\<close> decode to no
  reading, and \<open>process_json_line\<close> returns the device table as it was.
\<close>

theorem undecodable_line_discarded:
  "json_loads line = None \<or> \<not> json_is_object (json_loads line) \<or>
     (\<not> json_is_string (json_object_get (json_loads line) ''id'') \<and>
      \<not> json_is_string (json_object_get (json_loads line) ''device_id''))
   \<Longrightarrow> decode_reading json_loads now line = None \<and>
       process_json_line json_loads now line devices = devices"
  using decode_none [of json_loads line now] by (simp add: process_json_line_def)

theorem undecodable_line_discarded_witness:
  "decode_reading (\<lambda>s. None) 1000 ''{id:'' = None \<and>
   process_json_line (\<lambda>s. None) 1000 ''{id:'' [] = [] \<and>
   decode_reading (\<lambda>s. Some (JSON_ARRAY [JSON_INTEGER 1])) 1000 ''[1]'' = None \<and>
   process_json_line (\<lambda>s. Some (JSON_ARRAY [JSON_INTEGER 1])) 1000 ''[1]'' [] = [] \<and>
   decode_reading (\<lambda>s. Some (JSON_OBJECT [(''id'', JSON_INTEGER 7), (''temp'', JSON_REAL 20)])) 1000 ''{}'' = None \<and>
   process_json_line (\<lambda>s. Some (JSON_OBJECT [(''id'', JSON_INTEGER 7), (''temp'', JSON_REAL 20)])) 1000 ''{}'' [] = []"
  using undecodable_line_discarded [of "\<lambda>s. None" "''{id:''" 1000 "[]"]
    undecodable_line_discarded [of "\<lambda>s. Some (JSON_ARRAY [JSON_INTEGER 1])" "''[1]''" 1000 "[]"]
    undecodable_line_discarded [of "\<lambda>s. Some (JSON_OBJECT [(''id'', JSON_INTEGER 7), (''temp'', JSON_REAL 20)])" "''{}''" 1000 "[]"]
  by simp

lemma decode_location_field:
  assumes "json_loads line = Some (JSON_OBJECT kvs)" "map_of kvs ''location'' = Some (JSON_STRING L)"
    and "decode_reading json_loads now line = Some r"
  shows "r_location r = trim_inplace (snprintf_s MAX_LOC_LEN L)"
  using assms by (auto simp: decode_reading_def string_field_def Let_def split: if_splits option.splits)

lemma short_attic_discarded:
  assumes "json_loads line = Some (JSON_OBJECT kvs)" "map_of kvs ''location'' = Some (JSON_STRING L)"
    and "length L < MAX_LOC_LEN" "equals_ci (trim_inplace L) ''attic''"
  shows "process_json_line json_loads now line devices = devices"
proof (cases "decode_reading json_loads now line")
  case None
  then show ?thesis by (simp add: process_json_line_def)
next
  case (Some r)
  from decode_location_field [OF assms(1,2) Some] assms(3)
  have "r_location r = trim_inplace L" by (simp add: snprintf_s_def)
  with assms(4) have "excluded_location (r_location r)" by (simp add: excluded_location_def)
  then show ?thesis using Some by (simp add: process_json_line_def upsert_excluded)
qed

lemma trim_padded_attic: "trim_inplace (replicate 91 CHR '' '' @ ''attic'') = ''attic''"
proof -
  have "dropWhile isspace (replicate 91 CHR '' '' @ ''attic'') = dropWhile isspace ''attic''"
    by (rule dropWhile_append2) (simp add: isspace_def)
  then show ?thesis by (simp add: trim_inplace_def isspace_def)
qed

lemma cut_padded_attic:
  "trim_inplace (snprintf_s MAX_LOC_LEN (replicate 91 CHR '' '' @ ''attic'')) = ''atti''"
proof -
  have "snprintf_s MAX_LOC_LEN (replicate 91 CHR '' '' @ ''attic'') = replicate 91 CHR '' '' @ ''atti''"
    by (simp add: snprintf_s_def MAX_LOC_LEN_def)
  moreover have "dropWhile isspace (replicate 91 CHR '' '' @ ''atti'') = dropWhile isspace ''atti''"
    by (rule dropWhile_append2) (simp add: isspace_def)
  ultimately show ?thesis by (simp add: trim_inplace_def isspace_def)
qed

text \<open>
  C4 (as the code has it). The decoded location is the location text cut to the 95
  bytes its buffer holds and then trimmed. When it equals \<open>"attic"\<close> without regard
  to case, \<open>process_json_line\<close> returns the device table as it was, so the averages
  and the rows of the table are those of before. From the empty table, no sequence of
  lines ever stores an entry at such a location, and the table never lists one. A
  location equals \<open>"attic"\<close> in this sense exactly when its lower-cased bytes are
  \<open>attic\<close>. For a \<open>"location"\<close> text shorter than the buffer the cut changes
  nothing: when its trimmed value equals \<open>"attic"\<close>, the line leaves the table as it
  was.
\<close>

theorem attic_never_stored:
  "(decode_reading json_loads now line = Some r \<and> equals_ci (r_location r) ''attic'' \<longrightarrow>
      process_json_line json_loads now line devices = devices \<and>
      compute_averages t w (process_json_line json_loads now line devices) = compute_averages t w devices \<and>
      table_rows (process_json_line json_loads now line devices) = table_rows devices) \<and>
   (\<forall>d \<in> set (process_lines json_loads nls []). \<not> equals_ci (location d) ''attic'') \<and>
   (\<forall>d \<in> set (table_rows devices). \<not> equals_ci (location d) ''attic'') \<and>
   equals_ci loc ''attic'' = (map tolower loc = ''attic'') \<and>
   (json_loads line = Some (JSON_OBJECT kvs) \<and> map_of kvs ''location'' = Some (JSON_STRING L) \<and>
    length L < MAX_LOC_LEN \<and> equals_ci (trim_inplace L) ''attic'' \<longrightarrow>
      process_json_line json_loads now line devices = devices)"
proof (intro conjI impI)
  assume a: "decode_reading json_loads now line = Some r \<and> equals_ci (r_location r) ''attic''"
  then have u: "process_json_line json_loads now line devices = devices"
    by (simp add: process_json_line_def upsert_excluded excluded_location_def)
  then show "process_json_line json_loads now line devices = devices" .
  from u show "compute_averages t w (process_json_line json_loads now line devices) = compute_averages t w devices"
    by simp
  from u show "table_rows (process_json_line json_loads now line devices) = table_rows devices"
    by simp
next
  show "\<forall>d \<in> set (process_lines json_loads nls []). \<not> equals_ci (location d) ''attic''"
    using process_lines_no_excluded [of "[]" json_loads nls] by (simp add: excluded_location_def)
next
  show "\<forall>d \<in> set (table_rows devices). \<not> equals_ci (location d) ''attic''"
    by (simp add: set_table_rows excluded_location_def)
next
  show "equals_ci loc ''attic'' = (map tolower loc = ''attic'')"
    by (simp add: equals_ci_map tolower_def)
next
  assume "json_loads line = Some (JSON_OBJECT kvs) \<and> map_of kvs ''location'' = Some (JSON_STRING L) \<and>
    length L < MAX_LOC_LEN \<and> equals_ci (trim_inplace L) ''attic''"
  then show "process_json_line json_loads now line devices = devices"
    by (intro short_attic_discarded [of json_loads line kvs L]) blast+
qed


theorem attic_never_stored_witness:
  "decode_reading (\<lambda>s. if s = ''a''
        then Some (JSON_OBJECT [(''id'', JSON_STRING ''A1''), (''location'', JSON_STRING '' ATTIC ''), (''temp'', JSON_REAL 20)])
        else Some (JSON_OBJECT [(''id'', JSON_STRING ''B1''), (''room'', JSON_STRING ''Garden''), (''ts'', JSON_INTEGER 990)]))
      1000 ''a''
    = Some \<lparr>r_id = ''A1'', r_location = ''ATTIC'', r_ts = 1000, r_temp = Some 20, r_rh = None\<rparr> \<and>
   equals_ci ''ATTIC'' ''attic'' \<and>
   process_json_line (\<lambda>s. if s = ''a''
        then Some (JSON_OBJECT [(''id'', JSON_STRING ''A1''), (''location'', JSON_STRING '' ATTIC ''), (''temp'', JSON_REAL 20)])
        else Some (JSON_OBJECT [(''id'', JSON_STRING ''B1''), (''room'', JSON_STRING ''Garden''), (''ts'', JSON_INTEGER 990)]))
      1000 ''a''
      [\<lparr>id_str = ''B1'', location = ''Garden'', ts = 990, temp = 0, has_temp = False, rh = 0, has_rh = False\<rparr>]
    = [\<lparr>id_str = ''B1'', location = ''Garden'', ts = 990, temp = 0, has_temp = False, rh = 0, has_rh = False\<rparr>] \<and>
   process_lines (\<lambda>s. if s = ''a''
        then Some (JSON_OBJECT [(''id'', JSON_STRING ''A1''), (''location'', JSON_STRING '' ATTIC ''), (''temp'', JSON_REAL 20)])
        else Some (JSON_OBJECT [(''id'', JSON_STRING ''B1''), (''room'', JSON_STRING ''Garden''), (''ts'', JSON_INTEGER 990)]))
      [(1000, ''a''), (1000, ''b'')] []
    = [\<lparr>id_str = ''B1'', location = ''Garden'', ts = 990, temp = 0, has_temp = False, rh = 0, has_rh = False\<rparr>]"
proof -
  let ?L = "\<lambda>s. if s = ''a''
        then Some (JSON_OBJECT [(''id'', JSON_STRING ''A1''), (''location'', JSON_STRING '' ATTIC ''), (''temp'', JSON_REAL 20)])
        else Some (JSON_OBJECT [(''id'', JSON_STRING ''B1''), (''room'', JSON_STRING ''Garden''), (''ts'', JSON_INTEGER 990)])"
  let ?dB = "\<lparr>id_str = ''B1'', location = ''Garden'', ts = 990, temp = 0, has_temp = False, rh = 0, has_rh = False\<rparr>"
  let ?rA = "\<lparr>r_id = ''A1'', r_location = ''ATTIC'', r_ts = 1000, r_temp = Some 20, r_rh = None\<rparr>"
  have dA: "decode_reading ?L 1000 ''a'' = Some ?rA"
    by (simp add: decode_reading_def string_field_def ts_field_def number_field_def json_is_number_def
      trim_inplace_def snprintf_s_def isspace_def MAX_ID_LEN_def MAX_LOC_LEN_def)
  have dB: "decode_reading ?L 1000 ''b''
      = Some \<lparr>r_id = ''B1'', r_location = ''Garden'', r_ts = 990, r_temp = None, r_rh = None\<rparr>"
    by (simp add: decode_reading_def string_field_def ts_field_def number_field_def json_is_number_def
      trim_inplace_def snprintf_s_def isspace_def MAX_ID_LEN_def MAX_LOC_LEN_def)
  have eq: "equals_ci ''ATTIC'' ''attic''" by code_simp
  have uB: "upsert \<lparr>r_id = ''B1'', r_location = ''Garden'', r_ts = 990, r_temp = None, r_rh = None\<rparr> [] = [?dB]"
    by (simp add: upsert_def excluded_location_def tolower_def find_device_def add_device_def
        MAX_DEVICES_def MAX_ID_LEN_def MAX_LOC_LEN_def snprintf_s_def store_reading_def)
  have eq': "equals_ci (r_location ?rA) ''attic''"
    by (simp only: Reading.select_convs eq)
  from attic_never_stored [of ?L 1000 "''a''" ?rA "[?dB]" 0 0 "[]" "''ATTIC''"] dA eq'
  have 1: "process_json_line ?L 1000 ''a'' [?dB] = [?dB]" by blast
  let ?kvs = "[(''id'', JSON_STRING ''A1''), (''location'', JSON_STRING '' ATTIC ''), (''temp'', JSON_REAL 20)]"
  have tr: "trim_inplace '' ATTIC '' = ''ATTIC''"
    by (simp add: trim_inplace_def isspace_def)
  have k: "?L ''a'' = Some (JSON_OBJECT ?kvs) \<and> map_of ?kvs ''location'' = Some (JSON_STRING '' ATTIC '') \<and>
    length '' ATTIC '' < MAX_LOC_LEN \<and> equals_ci (trim_inplace '' ATTIC '') ''attic''"
    unfolding tr using eq by (simp add: MAX_LOC_LEN_def)
  from attic_never_stored [of ?L 1000 "''a''" ?rA "[]" 0 0 "[]" "''ATTIC''" ?kvs "'' ATTIC ''"] k
  have 2: "process_json_line ?L 1000 ''a'' [] = []" by blast
  have 3: "process_lines ?L [(1000, ''a''), (1000, ''b'')] [] = [?dB]"
    unfolding process_lines_def foldl.simps prod.case 2
    by (simp only: process_json_line_def dB option.case uB)
  from dA eq 1 3 show ?thesis by blast
qed

text \<open>
  C4 as stated fails where the buffer cuts the location: 91 spaces and \<open>attic\<close> are
  96 bytes and trim to \<open>attic\<close>, but the program trims the first 95 bytes and stores
  an entry at \<open>atti\<close>.
\<close>

theorem attic_padded_counterexample:
  "length (replicate 91 CHR '' '' @ ''attic'') = 96 \<and>
   equals_ci (trim_inplace (replicate 91 CHR '' '' @ ''attic'')) ''attic'' \<and>
   process_json_line
     (\<lambda>s. Some (JSON_OBJECT [(''id'', JSON_STRING ''A1''),
                               (''location'', JSON_STRING (replicate 91 CHR '' '' @ ''attic'')),
                               (''temp'', JSON_REAL 20)]))
     1000 ''line'' []
   = [\<lparr>id_str = ''A1'', location = ''atti'', ts = 1000, temp = 20, has_temp = True, rh = 0, has_rh = False\<rparr>]"
proof -
  let ?L = "replicate 91 CHR '' '' @ ''attic''"
  let ?J = "\<lambda>s::string. Some (JSON_OBJECT [(''id'', JSON_STRING ''A1''),
                               (''location'', JSON_STRING ?L), (''temp'', JSON_REAL 20)])"
  have i: "trim_inplace (snprintf_s MAX_ID_LEN ''A1'') = ''A1''"
    by (simp add: trim_inplace_def snprintf_s_def isspace_def MAX_ID_LEN_def)
  have d: "decode_reading ?J 1000 ''line''
      = Some \<lparr>r_id = ''A1'', r_location = ''atti'', r_ts = 1000, r_temp = Some 20, r_rh = None\<rparr>"
    unfolding decode_reading_def Let_def
    by (simp add: string_field_def ts_field_def number_field_def json_is_number_def cut_padded_attic i)
  have u: "upsert \<lparr>r_id = ''A1'', r_location = ''atti'', r_ts = 1000, r_temp = Some 20, r_rh = None\<rparr> []
     = [\<lparr>id_str = ''A1'', location = ''atti'', ts = 1000, temp = 20, has_temp = True, rh = 0, has_rh = False\<rparr>]"
    by (simp add: upsert_def excluded_location_def tolower_def find_device_def add_device_def
        MAX_DEVICES_def MAX_ID_LEN_def MAX_LOC_LEN_def snprintf_s_def store_reading_def)
  have e: "equals_ci (trim_inplace ?L) ''attic''"
    by (simp add: trim_padded_attic tolower_def)
  have l: "length ?L = 96" by simp
  have p: "process_json_line ?J 1000 ''line'' []
     = [\<lparr>id_str = ''A1'', location = ''atti'', ts = 1000, temp = 20, has_temp = True, rh = 0, has_rh = False\<rparr>]"
    by (simp only: process_json_line_def d option.case u)
  from l e p show ?thesis by blast
qed

section \<open>The freshness window setting\<close>

lemma atoi_digits_stop: "\<not> starts_with isdigit rest \<Longrightarrow> atoi_digits acc rest = acc"
  by (cases rest) (simp_all add: starts_with_def)

lemma atoi_digits_append:
  "\<forall>c \<in> set ds. isdigit c \<Longrightarrow> \<not> starts_with isdigit rest \<Longrightarrow>
     atoi_digits acc (ds @ rest) = foldl (\<lambda>a c. 10 * a + (int (of_char c) - 48)) acc ds"
  by (induction ds arbitrary: acc) (simp_all add: atoi_digits_stop)

lemma dropWhile_ws:
  "\<forall>c \<in> set ws. isspace c \<Longrightarrow> \<not> starts_with isspace x \<Longrightarrow> dropWhile isspace (ws @ x) = x"
  by (cases x) (simp_all add: starts_with_def dropWhile_append2)

lemma digit_not_space: "isdigit c \<Longrightarrow> \<not> isspace c"
  by (auto simp: isdigit_def isspace_def Let_def)

lemma sign_not_space: "\<not> isspace CHR ''+''" "\<not> isspace CHR ''-''"
  by (simp_all add: isspace_def)

lemma sign_not_digit: "\<not> isdigit CHR ''+''" "\<not> isdigit CHR ''-''"
  by (simp_all add: isdigit_def)

lemma strtol10_numeral:
  assumes ws: "\<forall>c \<in> set ws. isspace c" and sg: "sg \<in> {[], ''+'', ''-''}"
    and ds: "ds \<noteq> []" "\<forall>c \<in> set ds. isdigit c" and rest: "\<not> starts_with isdigit rest"
  shows "strtol10 (ws @ sg @ ds @ rest) =
     clamp_long ((if sg = ''-'' then - 1 else 1) * decimal_value ds)"
proof -
  obtain d ds' where d: "ds = d # ds'" using ds(1) by (cases ds) auto
  then have dd: "isdigit d" using ds(2) by simp
  have ns: "\<not> starts_with isspace (sg @ ds @ rest)"
    using sg d dd by (auto simp: starts_with_def digit_not_space sign_not_space)
  have p: "dropWhile isspace (ws @ sg @ ds @ rest) = sg @ ds @ rest"
    using dropWhile_ws [OF ws ns] by simp
  have v: "atoi_digits 0 (ds @ rest) = decimal_value ds"
    using atoi_digits_append [OF ds(2) rest, of 0] by (simp add: decimal_value_def)
  consider "sg = []" | "sg = ''+''" | "sg = ''-''" using sg by auto
  then show ?thesis
  proof cases
    case 1
    have "d \<noteq> CHR ''-''" "d \<noteq> CHR ''+''" using dd sign_not_digit by auto
    then show ?thesis
      unfolding strtol10_def Let_def p using v 1 by (simp add: d)
  next
    case 2
    then show ?thesis unfolding strtol10_def Let_def p using v by simp
  next
    case 3
    then show ?thesis unfolding strtol10_def Let_def p using v by simp
  qed
qed

lemma strtol10_non_numeric:
  assumes ws: "\<forall>c \<in> set ws. isspace c" and x: "\<not> starts_with isspace x" "\<not> starts_numeric x"
  shows "strtol10 (ws @ x) = 0"
proof -
  have p: "dropWhile isspace (ws @ x) = x" using dropWhile_ws [OF ws x(1)] .
  show ?thesis
  proof (cases x)
    case Nil
    then show ?thesis unfolding strtol10_def Let_def p by (simp add: clamp_long_def LONG_MAX_def LONG_MIN_def)
  next
    case (Cons c cs)
    have nd: "\<not> isdigit c" using x(2) Cons by (simp add: starts_numeric_def starts_with_def)
    have s: "c = CHR ''+'' \<or> c = CHR ''-'' \<Longrightarrow> \<not> starts_with isdigit cs"
      using x(2) Cons by (simp add: starts_numeric_def starts_with_def)
    have "atoi_digits 0 x = 0" using nd Cons by simp
    moreover have "c = CHR ''+'' \<or> c = CHR ''-'' \<Longrightarrow> atoi_digits 0 cs = 0"
      using s atoi_digits_stop by blast
    ultimately show ?thesis
      unfolding strtol10_def Let_def p
      by (auto simp: Cons clamp_long_def LONG_MAX_def LONG_MIN_def)
  qed
qed

lemma init_stale_secs_range: "0 < init_stale_secs e \<and> init_stale_secs e < 86400"
  by (simp add: init_stale_secs_def Let_def split: option.splits)


lemma foldl_digits_nonneg:
  "\<forall>c \<in> set ds. isdigit c \<Longrightarrow> 0 \<le> acc \<Longrightarrow>
     0 \<le> foldl (\<lambda>a c. 10 * a + (int (of_char c) - 48)) acc ds"
proof (induction ds arbitrary: acc)
  case Nil
  then show ?case by simp
next
  case (Cons d ds)
  from Cons.prems have "0 \<le> 10 * acc + (int (of_char d) - 48)"
    by (simp add: isdigit_def Let_def)
  with Cons show ?case by simp
qed

lemma int_of_ll_id: "- 2147483648 \<le> v \<Longrightarrow> v \<le> 2147483647 \<Longrightarrow> int_of_ll v = v"
  by (simp add: int_of_ll_def)

lemma init_stale_secs_numeral:
  assumes "\<forall>c \<in> set ws. isspace c" "sg \<in> {[], ''+'', ''-''}"
    "ds \<noteq> []" "\<forall>c \<in> set ds. isdigit c" "\<not> starts_with isdigit rest"
  shows "init_stale_secs (Some (ws @ sg @ ds @ rest)) =
     (let v = int_of_ll (clamp_long ((if sg = ''-'' then - 1 else 1) * decimal_value ds))
      in if 0 < v \<and> v < 86400 then v else 900)"
  using assms(3) strtol10_numeral [OF assms]
  by (simp add: init_stale_secs_def atoi_def Let_def)

lemma init_stale_secs_non_numeric:
  assumes "\<forall>c \<in> set ws. isspace c" "\<not> starts_with isspace x" "\<not> starts_numeric x"
  shows "init_stale_secs (Some (ws @ x)) = 900"
  using strtol10_non_numeric [OF assms]
  by (simp add: init_stale_secs_def atoi_def Let_def int_of_ll_def)

lemma init_stale_secs_decimal:
  assumes "is_decimal s" "decimal_value s \<le> INT_MAX"
  shows "init_stale_secs (Some s) = spec_stale_secs (Some s)"
proof -
  have d: "s \<noteq> []" "\<forall>c \<in> set s. isdigit c"
    using assms(1) by (simp_all add: is_decimal_def list_all_iff)
  have n: "0 \<le> decimal_value s"
    using foldl_digits_nonneg [OF d(2), of 0] by (simp add: decimal_value_def)
  have "strtol10 ([] @ [] @ s @ []) = clamp_long ((if [] = ''-'' then - 1 else 1) * decimal_value s)"
    by (rule strtol10_numeral) (use d in \<open>simp_all add: starts_with_def\<close>)
  then have "strtol10 s = decimal_value s"
    using n assms(2) by (simp add: clamp_long_def LONG_MAX_def LONG_MIN_def INT_MAX_def)
  moreover have "int_of_ll (decimal_value s) = decimal_value s"
    using n assms(2) by (intro int_of_ll_id) (simp_all add: INT_MAX_def)
  ultimately show ?thesis
    using assms(1) d(1) by (simp add: init_stale_secs_def spec_stale_secs_def atoi_def Let_def)
qed

text \<open>
  C8 (as the code has it). The window is always in \<open>(0, 86400)\<close>, and it is 900 when
  the variable is not set or empty. For a setting made of white space, an optional
  sign, at least one digit and then anything that does not go on with a digit, the
  program reads the digits as a decimal number with that sign, clamps it to \<open>long\<close>
  and keeps its low 32 bits; the window is that value when it is above 0 and below
  86400, and 900 otherwise. A setting that, after its white space, starts with neither
  a digit nor a sign and a digit gives 900. On a plain decimal numeral that fits an
  \<open>int\<close> the window is what the specification says.
\<close>

theorem stale_secs_setting:
  "init_stale_secs None = 900 \<and> init_stale_secs (Some []) = 900 \<and>
   0 < init_stale_secs e \<and> init_stale_secs e < 86400 \<and>
   ((\<forall>c \<in> set ws. isspace c) \<and> sg \<in> {[], ''+'', ''-''} \<and> ds \<noteq> [] \<and>
    (\<forall>c \<in> set ds. isdigit c) \<and> \<not> starts_with isdigit rest \<longrightarrow>
      init_stale_secs (Some (ws @ sg @ ds @ rest)) =
        (let v = int_of_ll (clamp_long ((if sg = ''-'' then - 1 else 1) * decimal_value ds))
         in if 0 < v \<and> v < 86400 then v else 900)) \<and>
   ((\<forall>c \<in> set ws. isspace c) \<and> \<not> starts_with isspace x \<and> \<not> starts_numeric x \<longrightarrow>
      init_stale_secs (Some (ws @ x)) = 900) \<and>
   (is_decimal s \<and> decimal_value s \<le> INT_MAX \<longrightarrow>
      init_stale_secs (Some s) = spec_stale_secs (Some s))"
proof (intro conjI impI)
  show "init_stale_secs None = 900" by (simp add: init_stale_secs_def)
  show "init_stale_secs (Some []) = 900" by (simp add: init_stale_secs_def)
  show "0 < init_stale_secs e" "init_stale_secs e < 86400"
    using init_stale_secs_range [of e] by simp_all
  show "init_stale_secs (Some (ws @ sg @ ds @ rest)) =
        (let v = int_of_ll (clamp_long ((if sg = ''-'' then - 1 else 1) * decimal_value ds))
         in if 0 < v \<and> v < 86400 then v else 900)"
    if "(\<forall>c \<in> set ws. isspace c) \<and> sg \<in> {[], ''+'', ''-''} \<and> ds \<noteq> [] \<and>
        (\<forall>c \<in> set ds. isdigit c) \<and> \<not> starts_with isdigit rest"
    using that by (intro init_stale_secs_numeral) blast+
  show "init_stale_secs (Some (ws @ x)) = 900"
    if "(\<forall>c \<in> set ws. isspace c) \<and> \<not> starts_with isspace x \<and> \<not> starts_numeric x"
    using that by (intro init_stale_secs_non_numeric) blast+
  show "init_stale_secs (Some s) = spec_stale_secs (Some s)"
    if "is_decimal s \<and> decimal_value s \<le> INT_MAX"
    using that by (intro init_stale_secs_decimal) blast+
qed

theorem stale_secs_setting_witness:
  "init_stale_secs (Some '' +600 s'') = 600 \<and>
   init_stale_secs (Some ''-5'') = 900 \<and>
   init_stale_secs (Some ''abc'') = 900 \<and>
   init_stale_secs (Some ''86399'') = 86399 \<and> spec_stale_secs (Some ''86399'') = 86399 \<and>
   init_stale_secs (Some ''86400'') = 900 \<and> spec_stale_secs (Some ''86400'') = 900"
proof -
  have dv: "decimal_value ''600'' = 600" "decimal_value ''5'' = 5"
    "decimal_value ''86399'' = 86399" "decimal_value ''86400'' = 86400"
    by (simp_all add: decimal_value_def)
  have h1: "(\<forall>c \<in> set '' ''. isspace c) \<and> ''+'' \<in> {[], ''+'', ''-''} \<and> ''600'' \<noteq> [] \<and>
    (\<forall>c \<in> set ''600''. isdigit c) \<and> \<not> starts_with isdigit '' s''"
    by (simp add: isspace_def isdigit_def starts_with_def)
  from stale_secs_setting [of None "'' ''" "''+''" "''600''" "'' s''" "[]" "[]"] h1
  have 1: "init_stale_secs (Some ('' '' @ ''+'' @ ''600'' @ '' s'')) =
     (let v = int_of_ll (clamp_long ((if ''+'' = ''-'' then - 1 else 1) * decimal_value ''600''))
      in if 0 < v \<and> v < 86400 then v else 900)"
    by blast
  have h2: "(\<forall>c \<in> set []. isspace c) \<and> ''-'' \<in> {[], ''+'', ''-''} \<and> ''5'' \<noteq> [] \<and>
    (\<forall>c \<in> set ''5''. isdigit c) \<and> \<not> starts_with isdigit []"
    by (simp add: isdigit_def starts_with_def)
  from stale_secs_setting [of None "[]" "''-''" "''5''" "[]" "[]" "[]"] h2
  have 2: "init_stale_secs (Some ([] @ ''-'' @ ''5'' @ [])) =
     (let v = int_of_ll (clamp_long ((if ''-'' = ''-'' then - 1 else 1) * decimal_value ''5''))
      in if 0 < v \<and> v < 86400 then v else 900)"
    by blast
  have h3: "(\<forall>c \<in> set []. isspace c) \<and> \<not> starts_with isspace ''abc'' \<and> \<not> starts_numeric ''abc''"
    by (simp add: isspace_def isdigit_def starts_with_def starts_numeric_def)
  from stale_secs_setting [of None "[]" "[]" "[]" "[]" "''abc''" "[]"] h3
  have 3: "init_stale_secs (Some ([] @ ''abc'')) = 900" by blast
  have h4: "is_decimal ''86399'' \<and> decimal_value ''86399'' \<le> INT_MAX"
    "is_decimal ''86400'' \<and> decimal_value ''86400'' \<le> INT_MAX"
    by (simp_all add: is_decimal_def isdigit_def dv INT_MAX_def)
  from stale_secs_setting [of None "[]" "[]" "[]" "[]" "[]" "''86399''"] h4(1)
  have 4: "init_stale_secs (Some ''86399'') = spec_stale_secs (Some ''86399'')" by blast
  from stale_secs_setting [of None "[]" "[]" "[]" "[]" "[]" "''86400''"] h4(2)
  have 5: "init_stale_secs (Some ''86400'') = spec_stale_secs (Some ''86400'')" by blast
  have s: "spec_stale_secs (Some ''86399'') = 86399" "spec_stale_secs (Some ''86400'') = 900"
    using h4 by (simp_all add: spec_stale_secs_def dv)
  from 1 have a1: "init_stale_secs (Some '' +600 s'') = 600"
    by (simp add: dv clamp_long_def int_of_ll_def LONG_MAX_def LONG_MIN_def)
  from 2 have a2: "init_stale_secs (Some ''-5'') = 900"
    by (simp add: dv clamp_long_def int_of_ll_def LONG_MAX_def LONG_MIN_def)
  from 3 have a3: "init_stale_secs (Some ''abc'') = 900" by simp
  from a1 a2 a3 4 5 s show ?thesis by simp
qed

text \<open>
  C8 as stated fails: \<open>77xyz\<close> does not parse as an integer and \<open>4294967896\<close> is
  not below 86400, yet the program takes the windows 77 and 600 from them.
\<close>

theorem stale_secs_lenient_counterexample:
  "init_stale_secs (Some ''77xyz'') = 77 \<and> spec_stale_secs (Some ''77xyz'') = 900 \<and>
   init_stale_secs (Some ''4294967896'') = 600 \<and> spec_stale_secs (Some ''4294967896'') = 900"
  by (simp add: init_stale_secs_def spec_stale_secs_def atoi_def strtol10_def clamp_long_def
      int_of_ll_def is_decimal_def decimal_value_def isspace_def isdigit_def LONG_MAX_def LONG_MIN_def)

section \<open>Dew point: guard, formula and a reference value\<close>

text \<open>Bounds on \<open>ln 2\<close>, from the Taylor expansion of \<open>exp\<close>.\<close>

lemma sum5: "(\<Sum>m<5. (x::real) ^ m / fact m) = 1 + x + x^2 / 2 + x^3 / 6 + x^4 / 24"
  by (simp add: numeral_eq_Suc fact_numeral)

lemma ln2_lower: "(69/100 :: real) \<le> ln 2"
proof -
  obtain t :: real where t: "\<bar>t\<bar> \<le> \<bar>69/100\<bar>"
    and e: "exp (69/100 :: real) = (\<Sum>m<5. (69/100) ^ m / fact m) + (exp t / fact 5) * (69/100) ^ 5"
    using Maclaurin_exp_le [of "69/100" 5] by blast
  from t have "t \<le> 1" by simp
  then have "exp t \<le> exp 1" by simp
  then have t3: "exp t \<le> 3" using exp_le by linarith
  have f5: "fact 5 = (120::real)" by (simp add: fact_numeral)
  have "exp (69/100 :: real) \<le> 2"
    unfolding e sum5 f5 using t3 by (simp add: power_divide)
  then have "exp (69/100 :: real) \<le> exp (ln 2)" by simp
  then show ?thesis by (simp only: exp_le_cancel_iff)
qed

lemma ln2_upper: "ln 2 \<le> (139/200 :: real)"
proof -
  obtain t :: real where 
    e: "exp (139/200 :: real) = (\<Sum>m<5. (139/200) ^ m / fact m) + (exp t / fact 5) * (139/200) ^ 5"
    using Maclaurin_exp_le [of "139/200" 5] by blast
  have "0 \<le> (exp t / fact 5) * (139/200 :: real) ^ 5" by simp
  then have "(\<Sum>m<5. (139/200 :: real) ^ m / fact m) \<le> exp (139/200)"
    unfolding e by linarith
  moreover have "(2::real) \<le> (\<Sum>m<5. (139/200) ^ m / fact m)"
    unfolding sum5 by (simp add: power_divide)
  ultimately have "exp (ln 2) \<le> exp (139/200 :: real)" by simp
  then show ?thesis by (simp only: exp_le_cancel_iff)
qed


lemma close_bounds:
  assumes c: "close_to u d v" and u: "0 \<le> u" "u \<le> 1 / 10 ^ 6" and v: "0 < lo" "lo \<le> v" "v \<le> hi"
  obtains z where "d = Num z" "lo * (1 - 1 / 10 ^ 6) \<le> z" "z \<le> hi * (1 + 1 / 10 ^ 6)"
proof -
  from c obtain z where z: "d = Num z" "\<bar>z - v\<bar> \<le> u * \<bar>v\<bar>" by (auto simp: close_to_def)
  have vp: "0 < v" using v by linarith
  have uv: "u * v \<le> (1 / 10 ^ 6) * v" using u vp by (intro mult_right_mono) simp_all
  have "\<bar>z - v\<bar> \<le> u * v" using z(2) vp by simp
  with uv have b: "\<bar>z - v\<bar> \<le> (1 / 10 ^ 6) * v" by linarith
  have "lo * (1 - 1 / 10 ^ 6) \<le> v * (1 - 1 / 10 ^ 6)" using v by (intro mult_right_mono) simp_all
  moreover have "v * (1 + 1 / 10 ^ 6) \<le> hi * (1 + 1 / 10 ^ 6)" using v by (intro mult_right_mono) simp_all
  moreover have "v * (1 - 1 / 10 ^ 6) \<le> z" "z \<le> v * (1 + 1 / 10 ^ 6)"
    using abs_le_D1 [OF b] abs_le_D2 [OF b] by (simp_all add: algebra_simps)
  ultimately have "lo * (1 - 1 / 10 ^ 6) \<le> z" "z \<le> hi * (1 + 1 / 10 ^ 6)" by linarith+
  with z(1) that show ?thesis by blast
qed

lemma in_range_pos: "1 / 1000 \<le> v \<Longrightarrow> v \<le> 1000 \<Longrightarrow> in_range v"
  by (simp add: in_range_def)

lemma mul_bounds:
  fixes x y :: real
  assumes "0 \<le> l1" "l1 \<le> x" "x \<le> h1" "0 \<le> l2" "l2 \<le> y" "y \<le> h2"
  shows "l1 * l2 \<le> x * y \<and> x * y \<le> h1 * h2"
  using assms by (auto intro!: mult_mono)

lemma div_bounds:
  fixes x y :: real
  assumes "0 \<le> l1" "l1 \<le> x" "x \<le> h1" "0 < l2" "l2 \<le> y" "y \<le> h2"
  shows "l1 / h2 \<le> x / y \<and> x / y \<le> h1 / l2"
  using assms by (auto intro!: frac_le)

lemma ln_near_half:
  fixes z :: real
  assumes "4999995 / 10 ^ 7 \<le> z" "z \<le> 5000005 / 10 ^ 7"
  shows "- 69501 / 10 ^ 5 \<le> ln z \<and> ln z \<le> - 68999 / 10 ^ 5"
proof -
  have zp: "0 < z" using assms by simp
  have "ln (2 * z) \<le> 2 * z - 1" using zp by (intro ln_le_minus_one) simp
  then have 1: "ln z \<le> - ln 2 + (2 * z - 1)" using zp by (simp add: ln_mult)
  have "ln (1 / (2 * z)) \<le> 1 / (2 * z) - 1" using zp by (intro ln_le_minus_one) simp
  then have 2: "- ln 2 - (1 / (2 * z) - 1) \<le> ln z" using zp by (simp add: ln_div ln_mult)
  have "1 / (2 * z) \<le> 1 / (2 * (4999995 / 10 ^ 7))"
    using assms zp by (intro divide_left_mono) simp_all
  then have 3: "1 / (2 * z) - 1 \<le> 2 / 10 ^ 6" by simp
  have 4: "2 * z - 1 \<le> 1 / 10 ^ 6" using assms by simp
  from 1 2 3 4 ln2_lower ln2_upper show ?thesis by simp
qed

text \<open>
  The error analysis of \<open>dewpoint_c\<close> at \<open>t = 20\<close>, \<open>r = 50\<close>: an interval for each of
  the nine operations, in the order of the source.
\<close>

lemma dbl_1e300_gt: "1000 \<le> dbl_1e300"
proof -
  have "(1::real) \<le> 2 ^ 946" by (rule one_le_power) simp
  then have "(1681218273811815::real) * 1 \<le> 1681218273811815 * 2 ^ 946"
    by (intro mult_left_mono) simp_all
  then show ?thesis by (simp add: dbl_1e300_def)
qed

lemma dbl_17_62_bounds: "176199 / 10 ^ 4 \<le> dbl_17_62 \<and> dbl_17_62 \<le> 176201 / 10 ^ 4"
  by (simp add: dbl_17_62_def)

lemma dbl_243_12_bounds: "2431199 / 10 ^ 4 \<le> dbl_243_12 \<and> dbl_243_12 \<le> 2431201 / 10 ^ 4"
  by (simp add: dbl_243_12_def)

lemma acc_add: "fp_accurate fp u \<Longrightarrow> in_range (x + y) \<Longrightarrow> close_to u (fp_add fp (Num x) (Num y)) (x + y)"
  by (simp add: fp_accurate_def)

lemma acc_sub: "fp_accurate fp u \<Longrightarrow> in_range (x - y) \<Longrightarrow> close_to u (fp_sub fp (Num x) (Num y)) (x - y)"
  by (simp add: fp_accurate_def)

lemma acc_mul: "fp_accurate fp u \<Longrightarrow> in_range (x * y) \<Longrightarrow> close_to u (fp_mul fp (Num x) (Num y)) (x * y)"
  by (simp add: fp_accurate_def)

lemma acc_div: "fp_accurate fp u \<Longrightarrow> y \<noteq> 0 \<Longrightarrow> in_range (x / y) \<Longrightarrow> close_to u (fp_div fp (Num x) (Num y)) (x / y)"
  by (simp add: fp_accurate_def)

lemma acc_log: "fp_accurate fp u \<Longrightarrow> 0 < x \<Longrightarrow> in_range x \<Longrightarrow> \<exists>l. fp_log fp (Num x) = Num l \<and> \<bar>l - ln x\<bar> \<le> u"
  by (simp add: fp_accurate_def)

lemma op_step:
  assumes c: "in_range v \<Longrightarrow> close_to u d v" and u: "0 \<le> u" "u \<le> 1 / 10 ^ 6"
    and v: "1 / 1000 \<le> lo" "lo \<le> v" "v \<le> hi" "hi \<le> 1000"
    and w: "lo' \<le> lo * (1 - 1 / 10 ^ 6)" "hi * (1 + 1 / 10 ^ 6) \<le> hi'"
  shows "\<exists>z. d = Num z \<and> lo' \<le> z \<and> z \<le> hi'"
proof -
  have "in_range v" using v by (intro in_range_pos) linarith+
  then have cl: "close_to u d v" by (rule c)
  have "0 < lo" using v(1) by simp
  from close_bounds [OF cl u this v(2,3)] obtain z where
    z: "d = Num z" "lo * (1 - 1 / 10 ^ 6) \<le> z" "z \<le> hi * (1 + 1 / 10 ^ 6)" by blast
  have "lo' \<le> z" using w(1) z(2) by (rule order_trans)
  moreover have "z \<le> hi'" using z(3) w(2) by (rule order_trans)
  ultimately show ?thesis using z(1) by blast
qed

lemma dewpoint_20_50:
  assumes acc: "fp_accurate fp u" and u: "0 \<le> u" "u \<le> 1 / 10 ^ 6"
  shows "\<exists>d. dewpoint_c fp (Num 20) (Num 50) = Num d \<and> \<bar>d - 9.3\<bar> \<le> 0.1"
proof -
  note A = dbl_17_62_bounds and B = dbl_243_12_bounds
  (* rh_pct / 100.0 *)
  have "\<exists>z1. fp_div fp (Num 50) (Num 100) = Num z1 \<and> 4999995 / 10 ^ 7 \<le> z1 \<and> z1 \<le> 5000005 / 10 ^ 7"
  proof (rule op_step [where v = "50 / 100" and lo = "1 / 2" and hi = "1 / 2", OF _ u])
    show "close_to u (fp_div fp (Num 50) (Num 100)) (50 / 100)" if "in_range (50 / 100)"
      using acc that by (intro acc_div) simp_all
  qed simp_all
  then obtain z1 where e1: "fp_div fp (Num 50) (Num 100) = Num z1"
    and z1: "4999995 / 10 ^ 7 \<le> z1" "z1 \<le> 5000005 / 10 ^ 7" by blast
  (* log(...) *)
  have "0 < z1" "in_range z1" using z1 by (simp_all add: in_range_def)
  from acc_log [OF acc this] obtain l where e2: "fp_log fp (Num z1) = Num l" and "\<bar>l - ln z1\<bar> \<le> u"
    by blast
  with u ln_near_half [OF z1] have l: "- 69502 / 10 ^ 5 \<le> l" "l \<le> - 68998 / 10 ^ 5"
    by (simp_all add: abs_le_iff)
  (* a * t_c *)
  have "\<exists>z3. fp_mul fp (Num dbl_17_62) (Num 20) = Num z3 \<and> 35239 / 100 \<le> z3 \<and> z3 \<le> 35241 / 100"
  proof (rule op_step [where v = "dbl_17_62 * 20" and lo = "352398 / 1000" and hi = "352402 / 1000", OF _ u])
    show "close_to u (fp_mul fp (Num dbl_17_62) (Num 20)) (dbl_17_62 * 20)" if "in_range (dbl_17_62 * 20)"
      using acc that by (rule acc_mul)
  qed (use A in simp_all)
  then obtain z3 where e3: "fp_mul fp (Num dbl_17_62) (Num 20) = Num z3"
    and z3: "35239 / 100 \<le> z3" "z3 \<le> 35241 / 100" by blast
  (* b + t_c *)
  have "\<exists>z4. fp_add fp (Num dbl_243_12) (Num 20) = Num z4 \<and> 26311 / 100 \<le> z4 \<and> z4 \<le> 26313 / 100"
  proof (rule op_step [where v = "dbl_243_12 + 20" and lo = "2631199 / 10 ^ 4" and hi = "2631201 / 10 ^ 4", OF _ u])
    show "close_to u (fp_add fp (Num dbl_243_12) (Num 20)) (dbl_243_12 + 20)" if "in_range (dbl_243_12 + 20)"
      using acc that by (rule acc_add)
  qed (use B in simp_all)
  then obtain z4 where e4: "fp_add fp (Num dbl_243_12) (Num 20) = Num z4"
    and z4: "26311 / 100 \<le> z4" "z4 \<le> 26313 / 100" by blast
  (* (a * t_c) / (b + t_c) *)
  have q: "(35239 / 100) / (26313 / 100) \<le> z3 / z4 \<and> z3 / z4 \<le> (35241 / 100) / (26311 / 100)"
    using z3 z4 by (intro div_bounds) simp_all
  have "\<exists>z5. fp_div fp (Num z3) (Num z4) = Num z5 \<and> 133919 / 10 ^ 5 \<le> z5 \<and> z5 \<le> 133951 / 10 ^ 5"
  proof (rule op_step [where v = "z3 / z4" and lo = "13392 / 10 ^ 4" and hi = "13395 / 10 ^ 4", OF _ u])
    show "close_to u (fp_div fp (Num z3) (Num z4)) (z3 / z4)" if "in_range (z3 / z4)"
      using acc that z4 by (intro acc_div) simp_all
  qed (use q in simp_all)
  then obtain z5 where e5: "fp_div fp (Num z3) (Num z4) = Num z5"
    and z5: "133919 / 10 ^ 5 \<le> z5" "z5 \<le> 133951 / 10 ^ 5" by blast
  (* gamma *)
  have "\<exists>g. fp_add fp (Num l) (Num z5) = Num g \<and> 6441 / 10 ^ 4 \<le> g \<and> g \<le> 6496 / 10 ^ 4"
  proof (rule op_step [where v = "l + z5" and lo = "64417 / 10 ^ 5" and hi = "64953 / 10 ^ 5", OF _ u])
    show "close_to u (fp_add fp (Num l) (Num z5)) (l + z5)" if "in_range (l + z5)"
      using acc that by (rule acc_add)
  qed (use l z5 in simp_all)
  then obtain g where e6: "fp_add fp (Num l) (Num z5) = Num g"
    and g: "6441 / 10 ^ 4 \<le> g" "g \<le> 6496 / 10 ^ 4" by blast
  (* b * gamma *)
  have m: "(2431199 / 10 ^ 4) * (6441 / 10 ^ 4) \<le> dbl_243_12 * g \<and>
           dbl_243_12 * g \<le> (2431201 / 10 ^ 4) * (6496 / 10 ^ 4)"
    using B g by (intro mul_bounds) simp_all
  have "\<exists>z7. fp_mul fp (Num dbl_243_12) (Num g) = Num z7 \<and> 15658 / 100 \<le> z7 \<and> z7 \<le> 15795 / 100"
  proof (rule op_step [where v = "dbl_243_12 * g" and lo = "15659 / 100" and hi = "15794 / 100", OF _ u])
    show "close_to u (fp_mul fp (Num dbl_243_12) (Num g)) (dbl_243_12 * g)" if "in_range (dbl_243_12 * g)"
      using acc that by (rule acc_mul)
  qed (use m in simp_all)
  then obtain z7 where e7: "fp_mul fp (Num dbl_243_12) (Num g) = Num z7"
    and z7: "15658 / 100 \<le> z7" "z7 \<le> 15795 / 100" by blast
  (* a - gamma *)
  have "\<exists>z8. fp_sub fp (Num dbl_17_62) (Num g) = Num z8 \<and> 1697 / 100 \<le> z8 \<and> z8 \<le> 16977 / 1000"
  proof (rule op_step [where v = "dbl_17_62 - g" and lo = "169703 / 10 ^ 4" and hi = "16976 / 1000", OF _ u])
    show "close_to u (fp_sub fp (Num dbl_17_62) (Num g)) (dbl_17_62 - g)" if "in_range (dbl_17_62 - g)"
      using acc that by (rule acc_sub)
  qed (use A g in simp_all)
  then obtain z8 where e8: "fp_sub fp (Num dbl_17_62) (Num g) = Num z8"
    and z8: "1697 / 100 \<le> z8" "z8 \<le> 16977 / 1000" by blast
  (* the quotient *)
  have r: "(15658 / 100) / (16977 / 1000) \<le> z7 / z8 \<and> z7 / z8 \<le> (15795 / 100) / (1697 / 100)"
    using z7 z8 by (intro div_bounds) simp_all
  have "\<exists>d. fp_div fp (Num z7) (Num z8) = Num d \<and> 921 / 100 \<le> d \<and> d \<le> 932 / 100"
  proof (rule op_step [where v = "z7 / z8" and lo = "922 / 100" and hi = "931 / 100", OF _ u])
    show "close_to u (fp_div fp (Num z7) (Num z8)) (z7 / z8)" if "in_range (z7 / z8)"
      using acc that z8 by (intro acc_div) simp_all
  qed (use r in simp_all)
  then obtain d where e9: "fp_div fp (Num z7) (Num z8) = Num d"
    and d: "921 / 100 \<le> d" "d \<le> 932 / 100" by blast
  have "dewpoint_c fp (Num 20) (Num 50) = Num d"
    using dbl_1e300_gt by (simp add: Let_def e1 e2 e3 e4 e5 e6 e7 e8 e9)
  moreover have "\<bar>d - 9.3\<bar> \<le> 0.1" using d by linarith
  ultimately show ?thesis by blast
qed

lemma exact_fp_simps:
  "fp_add exact_fp (Num x) (Num y) = Num (x + y)"
  "fp_sub exact_fp (Num x) (Num y) = Num (x - y)"
  "fp_mul exact_fp (Num x) (Num y) = Num (x * y)"
  "fp_div exact_fp (Num x) (Num y) = Num (x / y)"
  "fp_log exact_fp (Num x) = Num (ln x)"
  by (simp_all add: exact_fp_def lift2_def)

lemma exact_fp_accurate: "0 \<le> u \<Longrightarrow> fp_accurate exact_fp u"
  by (simp add: fp_accurate_def close_to_def exact_fp_simps)

lemma dewpoint_not_finite: "\<not> is_finite t \<or> \<not> is_finite r \<Longrightarrow> dewpoint_c fp t r = NaN"
  by (cases t; cases r) auto

lemma dewpoint_rh_range: "rr \<le> 0 \<or> rr > 100 \<Longrightarrow> dewpoint_c fp t (Num rr) = NaN"
  by (cases t) auto

lemma dewpoint_machine:
  assumes "- dbl_1e300 < tc" "tc < dbl_1e300" "0 < rr" "rr \<le> 100"
  shows "dewpoint_c fp (Num tc) (Num rr) =
     fp_div fp
       (fp_mul fp (Num dbl_243_12)
          (fp_add fp (fp_log fp (fp_div fp (Num rr) (Num 100)))
             (fp_div fp (fp_mul fp (Num dbl_17_62) (Num tc)) (fp_add fp (Num dbl_243_12) (Num tc)))))
       (fp_sub fp (Num dbl_17_62)
          (fp_add fp (fp_log fp (fp_div fp (Num rr) (Num 100)))
             (fp_div fp (fp_mul fp (Num dbl_17_62) (Num tc)) (fp_add fp (Num dbl_243_12) (Num tc)))))"
proof -
  have "rr < dbl_1e300" "- dbl_1e300 < rr" using dbl_1e300_gt assms(3,4) by linarith+
  then show ?thesis using assms by (simp add: Let_def)
qed

lemma dewpoint_unrounded:
  assumes "- dbl_1e300 < tc" "tc < dbl_1e300" "0 < rr" "rr \<le> 100"
  shows "dewpoint_c exact_fp (Num tc) (Num rr) =
     Num (dbl_243_12 * (ln (rr / 100) + (dbl_17_62 * tc) / (dbl_243_12 + tc)) /
          (dbl_17_62 - (ln (rr / 100) + (dbl_17_62 * tc) / (dbl_243_12 + tc))))"
  unfolding dewpoint_machine [OF assms] by (simp add: exact_fp_simps)

text \<open>
  C6 (as the code has it). For every arithmetic \<open>fp\<close> of the machine: \<open>dewpoint_c\<close> is
  NaN when an argument fails the program's \<open>is_finite\<close> (NaN, an infinity, or a
  magnitude of \<open>1e300\<close> or more), and when the humidity is not in \<open>(0, 100]\<close>; so it is
  NaN at humidity 0 and 101 for every temperature. Otherwise its value is what the
  machine computes for \<open>b * gamma / (a - gamma)\<close> with
  \<open>gamma = log (r / 100) + a * t / (b + t)\<close>, \<open>a\<close> and \<open>b\<close> the doubles nearest to 17.62 and
  243.12, each operation with the machine's rounding and special values: a value that
  may itself be NaN or an infinity. In the arithmetic without rounding, and where
  neither denominator is zero, that value is the real number \<open>b g / (a - g)\<close> with
  \<open>g = ln (r / 100) + a t / (b + t)\<close>. At \<open>t = 20\<close>, \<open>r = 50\<close> every arithmetic that is
  accurate to a relative error of \<open>10^-6\<close> returns a number within 0.1 of 9.3.
\<close>

theorem dewpoint_guard_and_formula:
  "(\<not> is_finite t \<or> \<not> is_finite r \<longrightarrow> dewpoint_c fp t r = NaN) \<and>
   (rr \<le> 0 \<or> rr > 100 \<longrightarrow> dewpoint_c fp t (Num rr) = NaN) \<and>
   dewpoint_c fp t (Num 0) = NaN \<and> dewpoint_c fp t (Num 101) = NaN \<and>
   (- dbl_1e300 < tc \<and> tc < dbl_1e300 \<and> 0 < rr \<and> rr \<le> 100 \<longrightarrow>
      dewpoint_c fp (Num tc) (Num rr) =
        fp_div fp
          (fp_mul fp (Num dbl_243_12)
             (fp_add fp (fp_log fp (fp_div fp (Num rr) (Num 100)))
                (fp_div fp (fp_mul fp (Num dbl_17_62) (Num tc)) (fp_add fp (Num dbl_243_12) (Num tc)))))
          (fp_sub fp (Num dbl_17_62)
             (fp_add fp (fp_log fp (fp_div fp (Num rr) (Num 100)))
                (fp_div fp (fp_mul fp (Num dbl_17_62) (Num tc)) (fp_add fp (Num dbl_243_12) (Num tc)))))) \<and>
   (- dbl_1e300 < tc \<and> tc < dbl_1e300 \<and> 0 < rr \<and> rr \<le> 100 \<and> dbl_243_12 + tc \<noteq> 0 \<and>
    dbl_17_62 - (ln (rr / 100) + (dbl_17_62 * tc) / (dbl_243_12 + tc)) \<noteq> 0 \<longrightarrow>
      dewpoint_c exact_fp (Num tc) (Num rr) =
        Num (dbl_243_12 * (ln (rr / 100) + (dbl_17_62 * tc) / (dbl_243_12 + tc)) /
             (dbl_17_62 - (ln (rr / 100) + (dbl_17_62 * tc) / (dbl_243_12 + tc))))) \<and>
   \<bar>dbl_17_62 - 17.62\<bar> \<le> 1 / 10 ^ 14 \<and> \<bar>dbl_243_12 - 243.12\<bar> \<le> 1 / 10 ^ 13 \<and>
   (fp_accurate fp u \<and> 0 \<le> u \<and> u \<le> 1 / 10 ^ 6 \<longrightarrow>
      (\<exists>d. dewpoint_c fp (Num 20) (Num 50) = Num d \<and> \<bar>d - 9.3\<bar> \<le> 0.1))"
proof (intro conjI impI)
  show "dewpoint_c fp t r = NaN" if "\<not> is_finite t \<or> \<not> is_finite r"
    using that by (rule dewpoint_not_finite)
  show "dewpoint_c fp t (Num rr) = NaN" if "rr \<le> 0 \<or> rr > 100"
    using that by (rule dewpoint_rh_range)
  show "dewpoint_c fp t (Num 0) = NaN" by (rule dewpoint_rh_range) simp
  show "dewpoint_c fp t (Num 101) = NaN" by (rule dewpoint_rh_range) simp
  show "dewpoint_c fp (Num tc) (Num rr) =
        fp_div fp
          (fp_mul fp (Num dbl_243_12)
             (fp_add fp (fp_log fp (fp_div fp (Num rr) (Num 100)))
                (fp_div fp (fp_mul fp (Num dbl_17_62) (Num tc)) (fp_add fp (Num dbl_243_12) (Num tc)))))
          (fp_sub fp (Num dbl_17_62)
             (fp_add fp (fp_log fp (fp_div fp (Num rr) (Num 100)))
                (fp_div fp (fp_mul fp (Num dbl_17_62) (Num tc)) (fp_add fp (Num dbl_243_12) (Num tc)))))"
    if "- dbl_1e300 < tc \<and> tc < dbl_1e300 \<and> 0 < rr \<and> rr \<le> 100"
    using that by (intro dewpoint_machine) blast+
  show "dewpoint_c exact_fp (Num tc) (Num rr) =
        Num (dbl_243_12 * (ln (rr / 100) + (dbl_17_62 * tc) / (dbl_243_12 + tc)) /
             (dbl_17_62 - (ln (rr / 100) + (dbl_17_62 * tc) / (dbl_243_12 + tc))))"
    if "- dbl_1e300 < tc \<and> tc < dbl_1e300 \<and> 0 < rr \<and> rr \<le> 100 \<and> dbl_243_12 + tc \<noteq> 0 \<and>
        dbl_17_62 - (ln (rr / 100) + (dbl_17_62 * tc) / (dbl_243_12 + tc)) \<noteq> 0"
    using that by (intro dewpoint_unrounded) blast+
  show "\<bar>dbl_17_62 - 17.62\<bar> \<le> 1 / 10 ^ 14" by (simp add: dbl_17_62_def)
  show "\<bar>dbl_243_12 - 243.12\<bar> \<le> 1 / 10 ^ 13" by (simp add: dbl_243_12_def)
  show "\<exists>d. dewpoint_c fp (Num 20) (Num 50) = Num d \<and> \<bar>d - 9.3\<bar> \<le> 0.1"
    if "fp_accurate fp u \<and> 0 \<le> u \<and> u \<le> 1 / 10 ^ 6"
    using that by (intro dewpoint_20_50 [of fp u]) blast+
qed

theorem dewpoint_guard_and_formula_witness:
  "dewpoint_c exact_fp PosInf (Num 50) = NaN \<and> dewpoint_c exact_fp (Num 20) (Num (- 1)) = NaN \<and>
   dewpoint_c exact_fp (Num 0) (Num 100) = Num 0 \<and>
   (\<exists>d. dewpoint_c exact_fp (Num 20) (Num 50) = Num d \<and> \<bar>d - 9.3\<bar> \<le> 0.1)"
proof -
  have h: "- dbl_1e300 < 0 \<and> (0::real) < dbl_1e300 \<and> (0::real) < 100 \<and> (100::real) \<le> 100"
    using dbl_1e300_gt by simp
  have z: "dbl_243_12 + 0 \<noteq> 0 \<and>
      dbl_17_62 - (ln (100 / 100) + (dbl_17_62 * 0) / (dbl_243_12 + 0)) \<noteq> 0"
    using dbl_17_62_bounds dbl_243_12_bounds by simp
  have a: "fp_accurate exact_fp 0 \<and> (0::real) \<le> 0 \<and> (0::real) \<le> 1 / 10 ^ 6"
    using exact_fp_accurate [of 0] by simp
  have n: "\<not> is_finite PosInf \<or> \<not> is_finite (Num 50)" by simp
  have m: "(- 1 :: real) \<le> 0 \<or> (- 1 :: real) > 100" by simp
  note T = dewpoint_guard_and_formula [of PosInf "Num 50" exact_fp "- 1" 0 0]
  note T2 = dewpoint_guard_and_formula [of "Num 20" "Num 50" exact_fp "- 1" 0 0]
  note T3 = dewpoint_guard_and_formula [of NaN NaN exact_fp 100 0 0]
  from T n have 1: "dewpoint_c exact_fp PosInf (Num 50) = NaN" by blast
  from T2 m have 2: "dewpoint_c exact_fp (Num 20) (Num (- 1)) = NaN" by blast
  from T3 h z have "dewpoint_c exact_fp (Num 0) (Num 100) =
        Num (dbl_243_12 * (ln (100 / 100) + (dbl_17_62 * 0) / (dbl_243_12 + 0)) /
             (dbl_17_62 - (ln (100 / 100) + (dbl_17_62 * 0) / (dbl_243_12 + 0))))" by blast
  then have 3: "dewpoint_c exact_fp (Num 0) (Num 100) = Num 0" by simp
  from T a have 4: "\<exists>d. dewpoint_c exact_fp (Num 20) (Num 50) = Num d \<and> \<bar>d - 9.3\<bar> \<le> 0.1" by blast
  from 1 2 3 4 show ?thesis by blast
qed

text \<open>
  C6 as stated fails: \<open>2e300\<close> is a finite \<open>double\<close> and 50 a legal humidity, yet
  \<open>dewpoint_c\<close> is NaN there, because \<open>is_finite\<close> rejects it before any operation is
  done (so in every arithmetic; it is shown in one).
\<close>

theorem dewpoint_huge_counterexample:
  "dewpoint_c exact_fp (Num (2 * dbl_1e300)) (Num 50) = NaN \<and>
   dewpoint_c exact_fp (Num (2 * dbl_1e300)) (Num 50) \<noteq> dewpoint_spec (Num (2 * dbl_1e300)) (Num 50)"
proof -
  have "\<not> 2 * dbl_1e300 < dbl_1e300" using dbl_1e300_gt by simp
  then show ?thesis by (simp add: dewpoint_spec_def Let_def)
qed

section \<open>Averages and the freshness window\<close>

lemma foldl_avg_step:
  "foldl (avg_step c) s ds =
     \<lparr>sum_in_t = sum_in_t s + sum_list (map temp (filter (\<lambda>d. ts d \<ge> c \<and> \<not> in_garden d \<and> has_temp d) ds)),
      sum_in_h = sum_in_h s + sum_list (map rh (filter (\<lambda>d. ts d \<ge> c \<and> \<not> in_garden d \<and> has_rh d) ds)),
      nin_t = nin_t s + int (length (filter (\<lambda>d. ts d \<ge> c \<and> \<not> in_garden d \<and> has_temp d) ds)),
      nin_h = nin_h s + int (length (filter (\<lambda>d. ts d \<ge> c \<and> \<not> in_garden d \<and> has_rh d) ds)),
      cin = cin s + int (length (filter (\<lambda>d. ts d \<ge> c \<and> \<not> in_garden d \<and> (has_temp d \<or> has_rh d)) ds)),
      sum_g_t = sum_g_t s + sum_list (map temp (filter (\<lambda>d. ts d \<ge> c \<and> in_garden d \<and> has_temp d) ds)),
      sum_g_h = sum_g_h s + sum_list (map rh (filter (\<lambda>d. ts d \<ge> c \<and> in_garden d \<and> has_rh d) ds)),
      ng_t = ng_t s + int (length (filter (\<lambda>d. ts d \<ge> c \<and> in_garden d \<and> has_temp d) ds)),
      ng_h = ng_h s + int (length (filter (\<lambda>d. ts d \<ge> c \<and> in_garden d \<and> has_rh d) ds)),
      cg = cg s + int (length (filter (\<lambda>d. ts d \<ge> c \<and> in_garden d \<and> (has_temp d \<or> has_rh d)) ds))\<rparr>"
proof (induction ds arbitrary: s)
  case Nil
  then show ?case by simp
next
  case (Cons d ds)
  show ?case
    unfolding foldl.simps Cons.IH
    by (simp add: avg_step_def in_garden_def Let_def)
qed


lemma compute_averages_means:
  "compute_averages now w ds =
     \<lparr>in_t = mean (map temp (filter (\<lambda>d. fresh now w d \<and> \<not> in_garden d \<and> has_temp d) ds)),
      in_h = mean (map rh (filter (\<lambda>d. fresh now w d \<and> \<not> in_garden d \<and> has_rh d) ds)),
      in_n = int (length (filter (\<lambda>d. fresh now w d \<and> \<not> in_garden d \<and> (has_temp d \<or> has_rh d)) ds)),
      g_t = mean (map temp (filter (\<lambda>d. fresh now w d \<and> in_garden d \<and> has_temp d) ds)),
      g_h = mean (map rh (filter (\<lambda>d. fresh now w d \<and> in_garden d \<and> has_rh d) ds)),
      g_n = int (length (filter (\<lambda>d. fresh now w d \<and> in_garden d \<and> (has_temp d \<or> has_rh d)) ds))\<rparr>"
  unfolding compute_averages_def Let_def foldl_avg_step
  by (simp add: mean_def fresh_def no_sums_def)

text \<open>
  C7. For each class (garden: the location equals \<open>"garden"\<close> without regard to
  case; indoor: every other location, and the device table holds no excluded one) the
  mean temperature is the mean over exactly the fresh devices with a temperature, the
  mean humidity the mean over exactly the fresh devices with a humidity, and the count
  the number of fresh devices with at least one of the two. The mean of no values is
  NaN. A class of one fresh temperature-only and one fresh humidity-only device reports
  both means, each the value of its single contributor, and the count 2. The sums and
  quotients are those of exact real arithmetic.
\<close>

theorem averages_per_class:
  "in_t (compute_averages now w ds) =
     mean (map temp (filter (\<lambda>d. fresh now w d \<and> \<not> in_garden d \<and> has_temp d) ds)) \<and>
   in_h (compute_averages now w ds) =
     mean (map rh (filter (\<lambda>d. fresh now w d \<and> \<not> in_garden d \<and> has_rh d) ds)) \<and>
   in_n (compute_averages now w ds) =
     int (length (filter (\<lambda>d. fresh now w d \<and> \<not> in_garden d \<and> (has_temp d \<or> has_rh d)) ds)) \<and>
   g_t (compute_averages now w ds) =
     mean (map temp (filter (\<lambda>d. fresh now w d \<and> in_garden d \<and> has_temp d) ds)) \<and>
   g_h (compute_averages now w ds) =
     mean (map rh (filter (\<lambda>d. fresh now w d \<and> in_garden d \<and> has_rh d) ds)) \<and>
   g_n (compute_averages now w ds) =
     int (length (filter (\<lambda>d. fresh now w d \<and> in_garden d \<and> (has_temp d \<or> has_rh d)) ds)) \<and>
   mean [] = NaN \<and> mean [x] = Num x \<and>
   (fresh now w d1 \<and> fresh now w d2 \<and> in_garden d1 = in_garden d2 \<and>
    has_temp d1 \<and> \<not> has_rh d1 \<and> \<not> has_temp d2 \<and> has_rh d2 \<longrightarrow>
      (if in_garden d1 then g_t else in_t) (compute_averages now w [d1, d2]) = Num (temp d1) \<and>
      (if in_garden d1 then g_h else in_h) (compute_averages now w [d1, d2]) = Num (rh d2) \<and>
      (if in_garden d1 then g_n else in_n) (compute_averages now w [d1, d2]) = 2)"
proof -
  have ex: "(if in_garden d1 then g_t else in_t) (compute_averages now w [d1, d2]) = Num (temp d1) \<and>
      (if in_garden d1 then g_h else in_h) (compute_averages now w [d1, d2]) = Num (rh d2) \<and>
      (if in_garden d1 then g_n else in_n) (compute_averages now w [d1, d2]) = 2"
    if "fresh now w d1 \<and> fresh now w d2 \<and> in_garden d1 = in_garden d2 \<and>
        has_temp d1 \<and> \<not> has_rh d1 \<and> \<not> has_temp d2 \<and> has_rh d2"
    using that unfolding compute_averages_means by (simp add: mean_def)
  show ?thesis
    unfolding compute_averages_means using ex
    by (simp add: mean_def compute_averages_means)
qed

theorem averages_per_class_witness:
  "in_t (compute_averages 1500 900
     [\<lparr>id_str = ''A'', location = ''hall'', ts = 1000, temp = 21, has_temp = True, rh = 0, has_rh = False\<rparr>,
      \<lparr>id_str = ''B'', location = ''kitchen'', ts = 1000, temp = 0, has_temp = False, rh = 40, has_rh = True\<rparr>])
     = Num 21 \<and>
   in_h (compute_averages 1500 900
     [\<lparr>id_str = ''A'', location = ''hall'', ts = 1000, temp = 21, has_temp = True, rh = 0, has_rh = False\<rparr>,
      \<lparr>id_str = ''B'', location = ''kitchen'', ts = 1000, temp = 0, has_temp = False, rh = 40, has_rh = True\<rparr>])
     = Num 40 \<and>
   in_n (compute_averages 1500 900
     [\<lparr>id_str = ''A'', location = ''hall'', ts = 1000, temp = 21, has_temp = True, rh = 0, has_rh = False\<rparr>,
      \<lparr>id_str = ''B'', location = ''kitchen'', ts = 1000, temp = 0, has_temp = False, rh = 40, has_rh = True\<rparr>])
     = 2 \<and>
   g_t (compute_averages 1500 900
     [\<lparr>id_str = ''A'', location = ''hall'', ts = 1000, temp = 21, has_temp = True, rh = 0, has_rh = False\<rparr>,
      \<lparr>id_str = ''B'', location = ''kitchen'', ts = 1000, temp = 0, has_temp = False, rh = 40, has_rh = True\<rparr>])
     = NaN"
proof -
  let ?a = "\<lparr>id_str = ''A'', location = ''hall'', ts = 1000, temp = 21, has_temp = True, rh = 0, has_rh = False\<rparr>"
  let ?b = "\<lparr>id_str = ''B'', location = ''kitchen'', ts = 1000, temp = 0, has_temp = False, rh = 40, has_rh = True\<rparr>"
  note T = averages_per_class [of 1500 900 "[?a, ?b]" 0 ?a ?b]
  have g: "\<not> in_garden ?a" "\<not> in_garden ?b" by (simp_all add: in_garden_def tolower_def)
  have fr: "fresh 1500 900 ?a" "fresh 1500 900 ?b" by (simp_all add: fresh_def)
  have h: "fresh 1500 900 ?a \<and> fresh 1500 900 ?b \<and> in_garden ?a = in_garden ?b \<and>
    has_temp ?a \<and> \<not> has_rh ?a \<and> \<not> has_temp ?b \<and> has_rh ?b"
    using g fr by simp
  from T h have e: "(if in_garden ?a then g_t else in_t) (compute_averages 1500 900 [?a, ?b]) = Num (temp ?a) \<and>
      (if in_garden ?a then g_h else in_h) (compute_averages 1500 900 [?a, ?b]) = Num (rh ?b) \<and>
      (if in_garden ?a then g_n else in_n) (compute_averages 1500 900 [?a, ?b]) = 2"
    by blast
  have gt: "g_t (compute_averages 1500 900 [?a, ?b]) = NaN"
  proof -
    from T have "g_t (compute_averages 1500 900 [?a, ?b]) =
      mean (map temp (filter (\<lambda>d. fresh 1500 900 d \<and> in_garden d \<and> has_temp d) [?a, ?b]))"
      by blast
    also have "\<dots> = NaN" using g by (simp add: mean_def)
    finally show ?thesis .
  qed
  from e g gt show ?thesis by simp
qed







lemma draw_row_fields:
  "row_dev (draw_row fp now cutoff c d) = d"
  "stale (draw_row fp now cutoff c d) = (ts d < cutoff)"
  "row_attr (draw_row fp now cutoff c d) = (if ts d < cutoff then {A_DIM} else A_NORMAL)"
  "age (draw_row fp now cutoff c d) = imax 0 (int_of_ll (now - ts d))"
  by (simp_all add: draw_row_def Let_def)




section \<open>The age column\<close>

lemma age_nonneg: "0 \<le> age (draw_row fp now cutoff c d)"
  by (simp add: draw_row_fields imax_def)

lemma age_in_int_range:
  "- 2147483648 \<le> now - ts d \<Longrightarrow> now - ts d \<le> 2147483647 \<Longrightarrow>
     age (draw_row fp now cutoff c d) = max 0 (now - ts d)"
  by (simp add: draw_row_fields imax_def int_of_ll_def max_def)

text \<open>
  C10. The age column shows \<open>imax(0, now - ts)\<close>, and \<open>imax\<close> takes \<open>int\<close>s: the
  \<open>long long\<close> difference is cut to 32 bits first. With a timestamp of
  \<open>-1000000000\<close> the difference \<open>2730000000\<close> does not fit and the age shown is 0;
  with a timestamp in milliseconds, far in the future, the age shown is a positive
  number instead of 0.
\<close>

theorem age_truncated_to_int:
  "age (draw_row fp 1730000000 (1730000000 - 900) True
      \<lparr>id_str = ''A'', location = ''hall'', ts = - 1000000000,
       temp = 0, has_temp = False, rh = 0, has_rh = False\<rparr>) = 0 \<and>
   max 0 (1730000000 - (- 1000000000)) = (2730000000 :: int) \<and>
   age (draw_row fp 1731700000 (1731700000 - 900) True
      \<lparr>id_str = ''A'', location = ''hall'', ts = 1731700000000,
       temp = 0, has_temp = False, rh = 0, has_rh = False\<rparr>) = 903520288 \<and>
   max 0 (1731700000 - 1731700000000) = (0 :: int)"
  by (simp add: draw_row_fields imax_def int_of_ll_def)

end
